theory Spec2Isabelle
  imports Complex_Main "HOL-Library.Word"
begin

section \<open>Reference and weight management of the MPC controller\<close>

text \<open>
  A shallow embedding of \<^verbatim>\<open>mpc_controller/references.cpp\<close>. The functions of the file
  mutate the global \<^verbatim>\<open>acadoVariables\<close> of the generated solver and read or write some
  members of \<^verbatim>\<open>MpcController\<close>; the model passes that state explicitly.

  \<^item> \<^verbatim>\<open>Index\<close> and \<^verbatim>\<open>std::size_t\<close> are 64-bit unsigned integers: every sum, difference
    and product of the source is the wrapping one of \<open>64 word\<close>.
  \<^item> \<^verbatim>\<open>AcadoReal\<close> and the scalar fields of a trajectory point are mathematical reals;
    \<^verbatim>\<open>static_cast<AcadoReal>\<close> is the identity. Rounding is not modelled.
  \<^item> A C array is a list. A read or write outside the list, and a library call whose
    precondition fails, is undefined behaviour: the outcome \<open>Undefined\<close>.
  \<^item> \<^verbatim>\<open>throw std::logic_error\<close> is the outcome \<open>Raised\<close>, which keeps the state as it
    was when the exception left the function.
\<close>

subsection \<open>Data model\<close>

type_synonym Index = "64 word"
type_synonym AcadoReal = real

text \<open>The constants of the file. \<^verbatim>\<open>HORIZON\<close> (\<^verbatim>\<open>ACADO_N\<close>) and \<^verbatim>\<open>NU\<close> (\<^verbatim>\<open>ACADO_NU\<close>) come from
  the generated header and are parameters of the functions below; the other three are
  fixed to 4 by the \<^verbatim>\<open>static_assert\<close>s.\<close>

abbreviation NX :: Index where "NX \<equiv> 4"
abbreviation NYN :: Index where "NYN \<equiv> 4"
abbreviation NY :: Index where "NY \<equiv> 4"
abbreviation NY2 :: Index where "NY2 \<equiv> NY * NY"

definition IDX_HEADING :: Index where "IDX_HEADING = 2"
definition IDYN_X :: Index where "IDYN_X = 0"
definition IDYN_Y :: Index where "IDYN_Y = 1"
definition IDYN_HEADING :: Index where "IDYN_HEADING = 2"
definition IDYN_VEL_LONG :: Index where "IDYN_VEL_LONG = 3"
definition IDY_X :: Index where "IDY_X = 0"
definition IDY_Y :: Index where "IDY_Y = 1"
definition IDY_HEADING :: Index where "IDY_HEADING = 2"
definition IDY_VEL_LONG :: Index where "IDY_VEL_LONG = 3"

text \<open>\<^verbatim>\<open>StateWeight\<close> with its three accessors, and \<^verbatim>\<open>OptimizationConfig\<close>.\<close>

record StateWeight =
  pose :: real
  heading :: real
  longitudinal_velocity :: real

record OptimizationConfig =
  nominal :: StateWeight
  terminal :: StateWeight

text \<open>A trajectory point. Only the four fields the file reads are kept; the heading is of
  an abstract type \<open>'h\<close> that only \<^verbatim>\<open>motion_common::to_angle\<close> (a parameter) inspects. A
  \<^verbatim>\<open>Trajectory\<close> is its vector of points.\<close>

record 'h Point =
  pt_x :: real
  pt_y :: real
  pt_heading :: 'h
  longitudinal_velocity_mps :: real

type_synonym 'h Trajectory = "'h Point list"

text \<open>The state: the arrays of \<^verbatim>\<open>acadoVariables\<close> (prefixed \<open>var_\<close>), then what the functions
  read from or write to the controller object.\<close>

record 'h mpc =
  var_x :: "AcadoReal list"
  var_u :: "AcadoReal list"
  var_y :: "AcadoReal list"
  var_yN :: "AcadoReal list"
  var_W :: "AcadoReal list"
  var_WN :: "AcadoReal list"
  var_x0 :: "AcadoReal list"
  optimization_param :: OptimizationConfig
  reference_trajectory :: "'h Trajectory"
  current_state_temporal_index :: Index
  m_interpolated_trajectory :: "'h Trajectory option"
  m_last_reference_index :: Index

text \<open>The sizes the generated header declares for the arrays (spec, section 3), for a
  horizon \<open>N\<close> and \<open>NU\<close> controls. The two products say that the arrays fit an address space
  indexed by \<^verbatim>\<open>std::size_t\<close>.\<close>

definition wf :: "Index \<Rightarrow> Index \<Rightarrow> 'h mpc \<Rightarrow> bool" where
  "wf N NU s \<longleftrightarrow>
     length (var_x s) = (unat N + 1) * 4 \<and>
     length (var_u s) = unat N * unat NU \<and>
     length (var_y s) = unat N * 4 \<and>
     length (var_yN s) = 4 \<and>
     length (var_W s) = unat N * 16 \<and>
     length (var_WN s) = 16 \<and>
     length (var_x0 s) = 4 \<and>
     unat N * 16 < 2 ^ 64 \<and>
     unat N * unat NU < 2 ^ 64"

subsection \<open>Outcomes, array accesses and the two library algorithms\<close>

datatype error = logic_error string

datatype ('a, 's) outcome = Done 'a | Raised error 's | Undefined

text \<open>Sequencing: an exception or undefined behaviour ends the function.\<close>

fun and_then :: "('s, 's) outcome \<Rightarrow> ('s \<Rightarrow> ('a, 's) outcome) \<Rightarrow> ('a, 's) outcome" where
  "and_then (Done s) f = f s"
| "and_then (Raised e s) f = Raised e s"
| "and_then Undefined f = Undefined"

text \<open>\<^verbatim>\<open>a[i] = v\<close> and \<^verbatim>\<open>a[i]\<close> on a C array or a \<^verbatim>\<open>std::vector\<close>.\<close>

definition store :: "'a list \<Rightarrow> Index \<Rightarrow> 'a \<Rightarrow> 'a list option" where
  "store a i v = (if unat i < length a then Some (a[unat i := v]) else None)"

definition load :: "'a list \<Rightarrow> Index \<Rightarrow> 'a option" where
  "load a i = (if unat i < length a then Some (a ! unat i) else None)"

text \<open>\<^verbatim>\<open>traj.points.size()\<close>.\<close>

definition size_of :: "'a list \<Rightarrow> Index" where
  "size_of xs = of_nat (length xs)"

text \<open>\<^verbatim>\<open>std::fill(first, last, v)\<close> on the positions \<open>[first, last)\<close> of one array: the
  loop \<^verbatim>\<open>for (; first != last; ++first) *first = v;\<close>, undefined unless the range is valid.\<close>

fun fill_loop :: "nat \<Rightarrow> nat \<Rightarrow> 'a \<Rightarrow> 'a list \<Rightarrow> 'a list" where
  "fill_loop 0 first_pos v a = a"
| "fill_loop (Suc n) first_pos v a = fill_loop n (Suc first_pos) v (a[first_pos := v])"

definition std_fill :: "'a list \<Rightarrow> nat \<Rightarrow> nat \<Rightarrow> 'a \<Rightarrow> 'a list option" where
  "std_fill a first_pos last_pos v =
     (if first_pos \<le> last_pos \<and> last_pos \<le> length a then Some (fill_loop (last_pos - first_pos) first_pos v a)
      else None)"

text \<open>\<^verbatim>\<open>std::copy(first, last, d_first)\<close> within one array: the forward loop
  \<^verbatim>\<open>while (first != last) *d_first++ = *first++;\<close>, each element read when its turn comes,
  undefined unless both ranges are valid. Where the destination is the start of the source
  (\<^verbatim>\<open>advance_problem(0)\<close>), the loop copies every element onto itself.\<close>

fun copy_loop :: "nat \<Rightarrow> nat \<Rightarrow> nat \<Rightarrow> 'a list \<Rightarrow> 'a list" where
  "copy_loop 0 first_pos d_first a = a"
| "copy_loop (Suc n) first_pos d_first a =
     copy_loop n (Suc first_pos) (Suc d_first) (a[d_first := a ! first_pos])"

definition std_copy :: "'a list \<Rightarrow> nat \<Rightarrow> nat \<Rightarrow> nat \<Rightarrow> 'a list option" where
  "std_copy a first_pos last_pos d_first =
     (if first_pos \<le> last_pos \<and> last_pos \<le> length a \<and> d_first + (last_pos - first_pos) \<le> length a
      then Some (copy_loop (last_pos - first_pos) first_pos d_first a)
      else None)"

subsection \<open>Weight primitives\<close>

definition zero_terminal_weights :: "'h mpc \<Rightarrow> ('h mpc, 'h mpc) outcome" where
  "zero_terminal_weights s =
     (case Option.bind (Option.bind (Option.bind
             (store (var_WN s) ((IDYN_X * NYN) + IDYN_X) 0)
             (\<lambda>WN. store WN ((IDYN_Y * NYN) + IDYN_Y) 0))
             (\<lambda>WN. store WN ((IDYN_HEADING * NYN) + IDYN_HEADING) 0))
             (\<lambda>WN. store WN ((IDYN_VEL_LONG * NYN) + IDYN_VEL_LONG) 0) of
        None \<Rightarrow> Undefined
      | Some WN \<Rightarrow> Done (s\<lparr>var_WN := WN\<rparr>))"

definition set_terminal_weights :: "StateWeight \<Rightarrow> 'h mpc \<Rightarrow> ('h mpc, 'h mpc) outcome" where
  "set_terminal_weights cfg s =
     (case Option.bind (Option.bind (Option.bind
             (store (var_WN s) ((IDYN_X * NYN) + IDYN_X) (pose cfg))
             (\<lambda>WN. store WN ((IDYN_Y * NYN) + IDYN_Y) (pose cfg)))
             (\<lambda>WN. store WN ((IDYN_HEADING * NYN) + IDYN_HEADING) (heading cfg)))
             (\<lambda>WN. store WN ((IDYN_VEL_LONG * NYN) + IDYN_VEL_LONG) (longitudinal_velocity cfg)) of
        None \<Rightarrow> Undefined
      | Some WN \<Rightarrow> Done (s\<lparr>var_WN := WN\<rparr>))"

text \<open>The body of the loop of \<^verbatim>\<open>apply_nominal_weights\<close> for stage \<open>i\<close>, and the loop.\<close>

definition apply_nominal_body :: "StateWeight \<Rightarrow> Index \<Rightarrow> AcadoReal list \<Rightarrow> AcadoReal list option" where
  "apply_nominal_body cfg i W =
     (let idx = i * NY2 in
      Option.bind (Option.bind (Option.bind
        (store W (idx + (IDY_X * NY) + IDY_X) (pose cfg))
        (\<lambda>W. store W (idx + (IDY_Y * NY) + IDY_Y) (pose cfg)))
        (\<lambda>W. store W (idx + (IDY_HEADING * NY) + IDY_HEADING) (heading cfg)))
        (\<lambda>W. store W (idx + (IDY_VEL_LONG * NY) + IDY_VEL_LONG) (longitudinal_velocity cfg)))"

function apply_nominal_loop ::
  "StateWeight \<Rightarrow> Index \<Rightarrow> Index \<Rightarrow> AcadoReal list \<Rightarrow> AcadoReal list option" where
  "apply_nominal_loop cfg i end W =
     (if i < end
      then (case apply_nominal_body cfg i W of
              None \<Rightarrow> None
            | Some W' \<Rightarrow> apply_nominal_loop cfg (i + 1) end W')
      else Some W)"
  by pat_completeness auto
termination
  by (relation "measure (\<lambda>(cfg, i, end, W). unat end - unat i)") (simp, unat_arith)

declare apply_nominal_loop.simps [simp del]

definition apply_nominal_weights ::
  "Index \<Rightarrow> StateWeight \<Rightarrow> Index \<Rightarrow> Index \<Rightarrow> 'h mpc \<Rightarrow> ('h mpc, 'h mpc) outcome" where
  "apply_nominal_weights HORIZON cfg start end s =
     (let end = min end HORIZON in
      if start > end
      then Raised (logic_error
             ''Inconsistent bounds: apply! There's likely an indexing bug somewhere'') s
      else (case apply_nominal_loop cfg start end (var_W s) of
              None \<Rightarrow> Undefined
            | Some W \<Rightarrow> Done (s\<lparr>var_W := W\<rparr>)))"

definition apply_terminal_weights :: "Index \<Rightarrow> Index \<Rightarrow> 'h mpc \<Rightarrow> ('h mpc, 'h mpc) outcome" where
  "apply_terminal_weights HORIZON idx s =
     (if idx \<ge> HORIZON
      then Raised (logic_error ''Out of bounds terminal weight index'') s
      else (let param = terminal (optimization_param s) in
            apply_nominal_weights HORIZON param idx (idx + 1) s))"

definition zero_nominal_weights :: "Index \<Rightarrow> Index \<Rightarrow> Index \<Rightarrow> 'h mpc \<Rightarrow> ('h mpc, 'h mpc) outcome" where
  "zero_nominal_weights HORIZON start end s =
     (let end = min HORIZON end in
      if start > end
      then Raised (logic_error
             ''Inconsistent bounds: zero! There's likely an indexing bug somewhere'') s
      else (case std_fill (var_W s) (unat (start * NY2)) (unat (end * NY2)) 0 of
              None \<Rightarrow> Undefined
            | Some W \<Rightarrow> Done (s\<lparr>var_W := W\<rparr>)))"

definition apply_weights :: "Index \<Rightarrow> OptimizationConfig \<Rightarrow> 'h mpc \<Rightarrow> ('h mpc, 'h mpc) outcome" where
  "apply_weights HORIZON cfg s =
     and_then (apply_nominal_weights HORIZON (nominal cfg) 0 HORIZON s)
       (set_terminal_weights (terminal cfg))"

subsection \<open>Rolling the horizon\<close>

definition advance_problem :: "Index \<Rightarrow> Index \<Rightarrow> Index \<Rightarrow> 'h mpc \<Rightarrow> ('h mpc, 'h mpc) outcome" where
  "advance_problem HORIZON NU count s =
     (if HORIZON \<le> count
      then Raised (logic_error ''Advancing count too high! Likely indexing bug somewhere'') s
      else (case std_copy (var_x s)
                   (unat (NX * (count + 1))) (unat ((HORIZON + 1) * NX)) (unat NX) of
              None \<Rightarrow> Undefined
            | Some x' \<Rightarrow>
          (case std_copy (var_y s) (unat (NY * count)) (unat (HORIZON * NY)) 0 of
              None \<Rightarrow> Undefined
            | Some y' \<Rightarrow>
          (case std_copy (var_u s) (unat (NU * count)) (unat (HORIZON * NU)) 0 of
              None \<Rightarrow> Undefined
            | Some u' \<Rightarrow> Done (s\<lparr>var_x := x', var_y := y', var_u := u'\<rparr>)))))"

subsection \<open>Reference population\<close>

text \<open>\<^verbatim>\<open>motion_common::to_angle\<close> is not part of the file: it is the parameter \<open>to_angle\<close>.\<close>

definition set_reference_body ::
  "('h \<Rightarrow> real) \<Rightarrow> 'h Trajectory \<Rightarrow> Index \<Rightarrow> Index \<Rightarrow> Index \<Rightarrow> AcadoReal list
     \<Rightarrow> AcadoReal list option" where
  "set_reference_body to_angle traj y_start traj_start i y =
     (case load traj (traj_start + i) of
        None \<Rightarrow> None
      | Some pt \<Rightarrow>
          (let ydx = (y_start + i) * NY in
           Option.bind (Option.bind (Option.bind
             (store y (ydx + IDY_X) (pt_x pt))
             (\<lambda>y. store y (ydx + IDY_Y) (pt_y pt)))
             (\<lambda>y. store y (ydx + IDY_VEL_LONG) (longitudinal_velocity_mps pt)))
             (\<lambda>y. store y (ydx + IDY_HEADING) (to_angle (pt_heading pt)))))"

function set_reference_loop ::
  "('h \<Rightarrow> real) \<Rightarrow> 'h Trajectory \<Rightarrow> Index \<Rightarrow> Index \<Rightarrow> Index \<Rightarrow> Index \<Rightarrow> AcadoReal list
     \<Rightarrow> AcadoReal list option" where
  "set_reference_loop to_angle traj y_start traj_start i count y =
     (if i < count
      then (case set_reference_body to_angle traj y_start traj_start i y of
              None \<Rightarrow> None
            | Some y' \<Rightarrow> set_reference_loop to_angle traj y_start traj_start (i + 1) count y')
      else Some y)"
  by pat_completeness auto
termination
  by (relation "measure (\<lambda>(to_angle, traj, y_start, traj_start, i, count, y). unat count - unat i)")
     (simp, unat_arith)

declare set_reference_loop.simps [simp del]

definition set_reference ::
  "('h \<Rightarrow> real) \<Rightarrow> Index \<Rightarrow> 'h Trajectory \<Rightarrow> Index \<Rightarrow> Index \<Rightarrow> Index \<Rightarrow> 'h mpc
     \<Rightarrow> ('h mpc, 'h mpc) outcome" where
  "set_reference to_angle HORIZON traj y_start traj_start count s =
     (if (y_start + count) > HORIZON \<or> (traj_start + count) > size_of traj
      then Raised (logic_error
             ''set_reference would go out of bounds! Indexing bug likely!'') s
      else (case set_reference_loop to_angle traj y_start traj_start 0 count (var_y s) of
              None \<Rightarrow> Undefined
            | Some y \<Rightarrow> Done (s\<lparr>var_y := y\<rparr>)))"

definition set_terminal_reference ::
  "('h \<Rightarrow> real) \<Rightarrow> 'h Point \<Rightarrow> 'h mpc \<Rightarrow> ('h mpc, 'h mpc) outcome" where
  "set_terminal_reference to_angle pt s =
     (case Option.bind (Option.bind (Option.bind
             (store (var_yN s) IDYN_X (pt_x pt))
             (\<lambda>yN. store yN IDYN_Y (pt_y pt)))
             (\<lambda>yN. store yN IDYN_VEL_LONG (longitudinal_velocity_mps pt)))
             (\<lambda>yN. store yN IDYN_HEADING (to_angle (pt_heading pt))) of
        None \<Rightarrow> Undefined
      | Some yN \<Rightarrow> Done (s\<lparr>var_yN := yN\<rparr>))"

text \<open>\<^verbatim>\<open>get_reference_trajectory()\<close> and \<^verbatim>\<open>get_current_state_temporal_index()\<close> of the base
  class read the fields \<open>reference_trajectory\<close> and \<open>current_state_temporal_index\<close>.\<close>

definition backfill_reference ::
  "('h \<Rightarrow> real) \<Rightarrow> Index \<Rightarrow> Index \<Rightarrow> 'h mpc \<Rightarrow> ('h mpc, 'h mpc) outcome" where
  "backfill_reference to_angle HORIZON count s =
     (if HORIZON \<le> count
      then Raised (logic_error ''Backfill count too high! Likely indexing bug somewhere'') s
      else
       (let ref_start = HORIZON - count;
            max_pts = size_of (reference_trajectory s);
            curr_idx = current_state_temporal_index s;
            traj_start = min (curr_idx + ref_start) max_pts;
            traj_end = min (traj_start + count) max_pts;
            safe_count = traj_end - traj_start
        in
        and_then (set_reference to_angle HORIZON (reference_trajectory s)
                    ref_start traj_start safe_count s) (\<lambda>s.
        and_then (if safe_count < count
                  then (let remainder = count - safe_count in
                        and_then (zero_nominal_weights HORIZON (HORIZON - remainder) HORIZON s)
                          (apply_terminal_weights HORIZON (HORIZON - (remainder + 1))))
                  else Done s) (\<lambda>s.
        if traj_start + count < max_pts
        then (case load (reference_trajectory s) (traj_start + count) of
                None \<Rightarrow> Undefined
              | Some pt \<Rightarrow> set_terminal_reference to_angle pt s)
        else zero_terminal_weights s))))"

subsection \<open>Heading consistency\<close>

text \<open>\<^verbatim>\<open>std::atan2\<close> on reals: the angle of the point \<open>(x, y)\<close> in \<open>(-\<pi>, \<pi>]\<close>; \<^verbatim>\<open>std::sin\<close>,
  \<^verbatim>\<open>std::cos\<close> and \<^verbatim>\<open>std::fabs\<close> are \<open>sin\<close>, \<open>cos\<close> and the absolute value.\<close>

definition atan2 :: "real \<Rightarrow> real \<Rightarrow> real" where
  "atan2 y x =
     (if 0 < x then arctan (y / x)
      else if x < 0 then (if 0 \<le> y then arctan (y / x) + pi else arctan (y / x) - pi)
      else if 0 < y then pi / 2
      else if y < 0 then - (pi / 2)
      else 0)"

text \<open>The lambda \<^verbatim>\<open>fn\<close>: it takes the reference heading and the captured \<^verbatim>\<open>last_angle\<close>
  and \<^verbatim>\<open>err\<close>, and gives the three back updated.\<close>

definition fn :: "AcadoReal \<Rightarrow> AcadoReal \<times> AcadoReal \<Rightarrow> AcadoReal \<times> AcadoReal \<times> AcadoReal" where
  "fn ref st =
     (let last_angle = fst st; err = snd st;
          dth = ref - last_angle;
          diff = atan2 (sin dth) (cos dth);
          ref_old = ref;
          ref = last_angle + diff;
          err = err + \<bar>ref - ref_old\<bar>;
          last_angle = ref
      in (ref, last_angle, err))"

function ensure_loop ::
  "Index \<Rightarrow> Index \<Rightarrow> AcadoReal list \<times> AcadoReal \<times> AcadoReal
     \<Rightarrow> (AcadoReal list \<times> AcadoReal \<times> AcadoReal) option" where
  "ensure_loop i horizon st =
     (if i < horizon
      then (let idx = NY * i in
            case load (fst st) (idx + IDY_HEADING) of
              None \<Rightarrow> None
            | Some ref \<Rightarrow>
                (let r = fn ref (snd st) in
                 case store (fst st) (idx + IDY_HEADING) (fst r) of
                   None \<Rightarrow> None
                 | Some y' \<Rightarrow> ensure_loop (i + 1) horizon (y', snd r)))
      else Some st)"
  by pat_completeness auto
termination
  by (relation "measure (\<lambda>(i, horizon, st). unat horizon - unat i)") (simp, unat_arith)

declare ensure_loop.simps [simp del]

definition PI :: AcadoReal where
  "PI = 3.14159"

text \<open>The body of \<^verbatim>\<open>ensure_reference_consistency\<close> up to its \<^verbatim>\<open>return\<close>: the value of
  \<^verbatim>\<open>err\<close> and the state. The function returns \<^verbatim>\<open>err > PI\<close>.\<close>

definition accumulated_err ::
  "Index \<Rightarrow> Index \<Rightarrow> 'h mpc \<Rightarrow> (AcadoReal \<times> 'h mpc, 'h mpc) outcome" where
  "accumulated_err HORIZON horizon s =
     (let horizon = min horizon HORIZON in
      case load (var_x0 s) IDX_HEADING of
        None \<Rightarrow> Undefined
      | Some last_angle \<Rightarrow>
      (case ensure_loop 0 horizon (var_y s, last_angle, 0) of
        None \<Rightarrow> Undefined
      | Some (y', st) \<Rightarrow>
      (case load (var_yN s) IDY_HEADING of
        None \<Rightarrow> Undefined
      | Some ref \<Rightarrow>
          (let r = fn ref st in
           case store (var_yN s) IDY_HEADING (fst r) of
             None \<Rightarrow> Undefined
           | Some yN' \<Rightarrow> Done (snd (snd r), s\<lparr>var_y := y', var_yN := yN'\<rparr>)))))"

definition ensure_reference_consistency ::
  "Index \<Rightarrow> Index \<Rightarrow> 'h mpc \<Rightarrow> (bool \<times> 'h mpc, 'h mpc) outcome" where
  "ensure_reference_consistency HORIZON horizon s =
     (case accumulated_err HORIZON horizon s of
        Done (err, s') \<Rightarrow> Done (err > PI, s')
      | Raised e s' \<Rightarrow> Raised e s'
      | Undefined \<Rightarrow> Undefined)"

subsection \<open>A new trajectory\<close>

text \<open>\<^verbatim>\<open>motion_common::sample\<close> is not part of the file: the parameter \<open>sample\<close> maps the
  incoming trajectory and the old content of the interpolation buffer to the buffer's
  new content. The function returns the trajectory it used.\<close>

definition handle_new_trajectory ::
  "('h Trajectory \<Rightarrow> 'h Trajectory \<Rightarrow> 'h Trajectory) \<Rightarrow> ('h \<Rightarrow> real) \<Rightarrow> Index \<Rightarrow> 'h Trajectory
     \<Rightarrow> 'h mpc \<Rightarrow> ('h Trajectory \<times> 'h mpc, 'h mpc) outcome" where
  "handle_new_trajectory sample to_angle HORIZON trajectory s =
     (let s = (case m_interpolated_trajectory s of
                 Some buf \<Rightarrow> s\<lparr>m_interpolated_trajectory := Some (sample trajectory buf)\<rparr>
               | None \<Rightarrow> s);
          traj = (case m_interpolated_trajectory s of Some buf \<Rightarrow> buf | None \<Rightarrow> trajectory);
          t_max = min (size_of traj) HORIZON
      in
      and_then (set_reference to_angle HORIZON traj 0 0 t_max s) (\<lambda>s.
      and_then (apply_nominal_weights HORIZON (nominal (optimization_param s)) 0 t_max s) (\<lambda>s.
      and_then (if t_max < HORIZON then zero_nominal_weights HORIZON t_max HORIZON s
                else Done s) (\<lambda>s.
      and_then (if t_max \<ge> size_of traj
                then and_then (zero_terminal_weights s)
                       (apply_terminal_weights HORIZON (size_of traj - 1))
                else (case load traj t_max of
                        None \<Rightarrow> Undefined
                      | Some pt \<Rightarrow> set_terminal_reference to_angle pt s)) (\<lambda>s.
      Done (traj, s\<lparr>m_last_reference_index := 0\<rparr>))))))"

subsection \<open>Reading the buffers and the outcomes\<close>

text \<open>The entries of the horizon buffer by stage, as section 3 of the specification names
  them: each array stores its vectors (or row-major matrices) one stage after the other.\<close>

definition state :: "'h mpc \<Rightarrow> nat \<Rightarrow> nat \<Rightarrow> real" where
  "state s i j = var_x s ! (i * 4 + j)"

definition control :: "Index \<Rightarrow> 'h mpc \<Rightarrow> nat \<Rightarrow> nat \<Rightarrow> real" where
  "control NU s i j = var_u s ! (i * unat NU + j)"

definition stage_ref :: "'h mpc \<Rightarrow> nat \<Rightarrow> nat \<Rightarrow> real" where
  "stage_ref s i j = var_y s ! (i * 4 + j)"

definition terminal_ref :: "'h mpc \<Rightarrow> nat \<Rightarrow> real" where
  "terminal_ref s j = var_yN s ! j"

definition stage_weight :: "'h mpc \<Rightarrow> nat \<Rightarrow> nat \<Rightarrow> nat \<Rightarrow> real" where
  "stage_weight s i r c = var_W s ! (i * 16 + (r * 4 + c))"

definition terminal_weight :: "'h mpc \<Rightarrow> nat \<Rightarrow> nat \<Rightarrow> real" where
  "terminal_weight s r c = var_WN s ! (r * 4 + c)"

text \<open>The diagonal entry \<open>r\<close> of a weight profile (fields x, y, heading, velocity), and the
  field \<open>j\<close> of the reference a trajectory point gives.\<close>

definition weight_of :: "StateWeight \<Rightarrow> nat \<Rightarrow> real" where
  "weight_of cfg r =
     (if r = 2 then heading cfg else if r = 3 then longitudinal_velocity cfg else pose cfg)"

definition ref_of :: "('h \<Rightarrow> real) \<Rightarrow> 'h Point \<Rightarrow> nat \<Rightarrow> real" where
  "ref_of to_angle pt j =
     (if j = 0 then pt_x pt else if j = 1 then pt_y pt
      else if j = 2 then to_angle (pt_heading pt) else longitudinal_velocity_mps pt)"

text \<open>What a call returned, the state it left behind (also when it threw), and whether it
  threw.\<close>

fun returned :: "('a, 's) outcome \<Rightarrow> 'a option" where
  "returned (Done a) = Some a"
| "returned (Raised e s) = None"
| "returned Undefined = None"

fun thrown :: "('a, 's) outcome \<Rightarrow> error option" where
  "thrown (Done a) = None"
| "thrown (Raised e s) = Some e"
| "thrown Undefined = None"

fun state_after :: "('s, 's) outcome \<Rightarrow> 's option" where
  "state_after (Done s) = Some s"
| "state_after (Raised e s) = Some s"
| "state_after Undefined = None"

text \<open>A buffer for a horizon of 10 stages and 2 controls with every array zero, headings
  given in radians (\<open>to_angle\<close> the identity), and the point number \<open>k\<close> of a test
  trajectory.\<close>

definition buffer10 :: "real mpc" where
  "buffer10 =
     \<lparr>var_x = replicate 44 0, var_u = replicate 20 0, var_y = replicate 40 0,
      var_yN = replicate 4 0, var_W = replicate 160 0, var_WN = replicate 16 0,
      var_x0 = replicate 4 0,
      optimization_param =
        \<lparr>nominal = \<lparr>pose = 10, heading = 11, longitudinal_velocity = 12\<rparr>,
         terminal = \<lparr>pose = 20, heading = 21, longitudinal_velocity = 22\<rparr>\<rparr>,
      reference_trajectory = [], current_state_temporal_index = 0,
      m_interpolated_trajectory = None, m_last_reference_index = 0\<rparr>"

definition waypoint :: "nat \<Rightarrow> real Point" where
  "waypoint k =
     \<lparr>pt_x = 100 + real k, pt_y = 200 + real k, pt_heading = 300 + real k,
      longitudinal_velocity_mps = 400 + real k\<rparr>"


text \<open>The same buffer with the state, control and reference arrays holding their own
  positions \<open>0, 1, 2, \<dots>\<close>, so that a shifted entry is told from its neighbours.\<close>

definition ramp10 :: "real mpc" where
  "ramp10 = buffer10\<lparr>var_x := map real [0..<44], var_u := map real [0..<20],
                      var_y := map real [0..<40]\<rparr>"

text \<open>The soft landing of \<^verbatim>\<open>backfill_reference(5)\<close> on a horizon of 10 stages as the
  specification words it, between the state \<open>s\<close> before and \<open>s'\<close> after the call: the two
  trajectory points from index \<open>k\<close> on are in the reference stages 5 and 6, the weights of
  the stages 7 to 9 are zero, and stage 6, the one before the zeroed block, carries the
  terminal profile on its diagonal.\<close>

definition soft_landing :: "('h \<Rightarrow> real) \<Rightarrow> nat \<Rightarrow> 'h mpc \<Rightarrow> 'h mpc \<Rightarrow> bool" where
  "soft_landing to_angle k s s' \<longleftrightarrow>
     (\<forall>d<4. stage_ref s' 5 d = ref_of to_angle (reference_trajectory s ! k) d \<and>
            stage_ref s' 6 d = ref_of to_angle (reference_trajectory s ! (k + 1)) d) \<and>
     (\<forall>i<10. 7 \<le> i \<longrightarrow> (\<forall>r<4. \<forall>c<4. stage_weight s' i r c = 0)) \<and>
     (\<forall>r<4. stage_weight s' 6 r r = weight_of (terminal (optimization_param s)) r)"

text \<open>The zero buffer with the test trajectory of 12 points stored and the vehicle at its
  point \<open>k\<close>.\<close>

definition tracking10 :: "nat \<Rightarrow> real mpc" where
  "tracking10 k = buffer10\<lparr>reference_trajectory := map waypoint [0..<12],
                            current_state_temporal_index := of_nat k\<rparr>"

text \<open>A call returned normally and left a state with the property \<open>P\<close>.\<close>

fun holds_after :: "('s \<Rightarrow> bool) \<Rightarrow> ('s, 's) outcome \<Rightarrow> bool" where
  "holds_after P (Done s) = P s"
| "holds_after P (Raised e s) = False"
| "holds_after P Undefined = False"

text \<open>The invariant of the weight matrices: off the diagonal, every entry of every stage
  weight and of the terminal weight is zero.\<close>

definition off_diagonal_zero :: "Index \<Rightarrow> 'h mpc \<Rightarrow> bool" where
  "off_diagonal_zero N s \<longleftrightarrow>
     (\<forall>i<unat N. \<forall>r<4. \<forall>c<4. r \<noteq> c \<longrightarrow> stage_weight s i r c = 0) \<and>
     (\<forall>r<4. \<forall>c<4. r \<noteq> c \<longrightarrow> terminal_weight s r c = 0)"

text \<open>Between \<open>s\<close> and \<open>s'\<close> the weight arrays changed only at diagonal positions or to zero: a
  position \<open>k\<close> of \<^verbatim>\<open>W\<close> is the entry \<open>k mod 16\<close> of its stage, and the entries 0, 5, 10 and 15
  of a row-major 4 by 4 matrix are its diagonal.\<close>

definition diagonal_writes :: "'h mpc \<Rightarrow> 'h mpc \<Rightarrow> bool" where
  "diagonal_writes s s' \<longleftrightarrow>
     (\<forall>k. k mod 16 mod 5 \<noteq> 0 \<longrightarrow> var_W s' ! k = var_W s ! k \<or> var_W s' ! k = 0) \<and>
     (\<forall>k. k mod 5 \<noteq> 0 \<longrightarrow> var_WN s' ! k = var_WN s ! k \<or> var_WN s' ! k = 0)"

text \<open>The public operations with their arguments, and the state-changing part of each.\<close>

datatype 'h operation =
    Apply_nominal_weights StateWeight Index Index
  | Zero_nominal_weights Index Index
  | Set_terminal_weights StateWeight
  | Zero_terminal_weights
  | Apply_terminal_weights Index
  | Apply_weights OptimizationConfig
  | Set_reference "'h Trajectory" Index Index Index
  | Set_terminal_reference "'h Point"
  | Handle_new_trajectory "'h Trajectory"
  | Advance_problem Index
  | Backfill_reference Index
  | Ensure_reference_consistency Index

fun forget :: "('a \<times> 's, 's) outcome \<Rightarrow> ('s, 's) outcome" where
  "forget (Done r) = Done (snd r)"
| "forget (Raised e s) = Raised e s"
| "forget Undefined = Undefined"

fun perform ::
  "('h Trajectory \<Rightarrow> 'h Trajectory \<Rightarrow> 'h Trajectory) \<Rightarrow> ('h \<Rightarrow> real) \<Rightarrow> Index \<Rightarrow> Index
     \<Rightarrow> 'h operation \<Rightarrow> 'h mpc \<Rightarrow> ('h mpc, 'h mpc) outcome" where
  "perform sample to_angle N NU (Apply_nominal_weights cfg start end) s =
     apply_nominal_weights N cfg start end s"
| "perform sample to_angle N NU (Zero_nominal_weights start end) s =
     zero_nominal_weights N start end s"
| "perform sample to_angle N NU (Set_terminal_weights cfg) s = set_terminal_weights cfg s"
| "perform sample to_angle N NU Zero_terminal_weights s = zero_terminal_weights s"
| "perform sample to_angle N NU (Apply_terminal_weights idx) s = apply_terminal_weights N idx s"
| "perform sample to_angle N NU (Apply_weights cfg) s = apply_weights N cfg s"
| "perform sample to_angle N NU (Set_reference traj y_start traj_start count) s =
     set_reference to_angle N traj y_start traj_start count s"
| "perform sample to_angle N NU (Set_terminal_reference pt) s =
     set_terminal_reference to_angle pt s"
| "perform sample to_angle N NU (Handle_new_trajectory trajectory) s =
     forget (handle_new_trajectory sample to_angle N trajectory s)"
| "perform sample to_angle N NU (Advance_problem count) s = advance_problem N NU count s"
| "perform sample to_angle N NU (Backfill_reference count) s =
     backfill_reference to_angle N count s"
| "perform sample to_angle N NU (Ensure_reference_consistency horizon) s =
     forget (ensure_reference_consistency N horizon s)"

text \<open>The zero buffer with the reference headings \<open>-3\<close> and \<open>3\<close> in the stages 0 and 1 and
  the measured heading \<open>-3\<close>.\<close>

definition turning10 :: "real mpc" where
  "turning10 = buffer10\<lparr>var_y := (replicate 40 0)[2 := - 3, 6 := 3],
                        var_x0 := [0, 0, - 3, 0]\<rparr>"

text \<open>Modelled from the spec: the angle conversion (\<^verbatim>\<open>motion_common::to_angle\<close> and its
  inverse \<^verbatim>\<open>from_angle\<close>) is not part of the file. Sections 4.2, 6 and 8 of the
  specification require of it that a heading in \<open>(-\<pi>, \<pi>]\<close> converted to the trajectory's
  representation and back is the same angle within \<open>10\<^sup>-\<^sup>6\<close> rad.\<close>

definition precision_preserving :: "('h \<Rightarrow> real) \<Rightarrow> (real \<Rightarrow> 'h) \<Rightarrow> bool" where
  "precision_preserving to_angle from_angle \<longleftrightarrow>
     (\<forall>\<theta>. - pi < \<theta> \<and> \<theta> \<le> pi \<longrightarrow> \<bar>to_angle (from_angle \<theta>) - \<theta>\<bar> \<le> 1 / 10 ^ 6)"

section \<open>Basic facts\<close>

subsection \<open>Index arithmetic and the library loops\<close>

lemmas field_index_defs =
  IDX_HEADING_def IDYN_X_def IDYN_Y_def IDYN_HEADING_def IDYN_VEL_LONG_def
  IDY_X_def IDY_Y_def IDY_HEADING_def IDY_VEL_LONG_def

lemma unat_affine:
  fixes i m c :: Index
  assumes "unat i * unat m + unat c < 2 ^ 64"
  shows "unat (i * m + c) = unat i * unat m + unat c"
proof -
  have "unat i * unat m < 2 ^ 64" using assms by simp
  then have m: "unat (i * m) = unat i * unat m"
    using unat_mult_lem [of i m] by simp
  then have "unat (i * m) + unat c < 2 ^ 64" using assms by simp
  then show ?thesis using unat_add_lem [of "i * m" c] m by simp
qed

lemma unat_times_16:
  fixes i :: Index
  assumes "unat i * 16 < 2 ^ 64"
  shows "unat (i * 16) = unat i * 16"
  using assms unat_mult_lem [of i 16] by simp

lemma wf_lengths:
  assumes "wf N NU s"
  shows "length (var_x s) = (unat N + 1) * 4" "length (var_u s) = unat N * unat NU"
    "length (var_y s) = unat N * 4" "length (var_yN s) = 4" "length (var_W s) = unat N * 16"
    "length (var_WN s) = 16" "length (var_x0 s) = 4" "unat N * 16 < 2 ^ 64"
    "unat N * unat NU < 2 ^ 64"
  using assms by (simp_all add: wf_def)

lemma length_fill_loop [simp]: "length (fill_loop n p v a) = length a"
  by (induction n arbitrary: p a) simp_all

lemma nth_fill_loop:
  "k < length a \<Longrightarrow> fill_loop n p v a ! k = (if p \<le> k \<and> k < p + n then v else a ! k)"
proof (induction n arbitrary: p a)
  case 0
  then show ?case by auto
next
  case (Suc n)
  then show ?case by (auto simp: nth_list_update)
qed

lemma apply_nominal_loop_stop: "\<not> i < e \<Longrightarrow> apply_nominal_loop cfg i e W = Some W"
  by (simp add: apply_nominal_loop.simps)

lemma set_reference_loop_stop:
  "\<not> i < count \<Longrightarrow> set_reference_loop to_angle traj y_start traj_start i count y = Some y"
  by (simp add: set_reference_loop.simps)

lemma set_reference_nothing:
  "set_reference to_angle N traj 0 0 0 s = Done s"
  by (simp add: set_reference_def set_reference_loop_stop)

lemma zero_nominal_weights_Done:
  assumes "wf N NU s" "start \<le> min N e"
  shows "zero_nominal_weights N start e s =
           Done (s\<lparr>var_W := fill_loop (unat (min N e) * 16 - unat start * 16)
                                (unat start * 16) 0 (var_W s)\<rparr>)"
proof -
  note l = wf_lengths [OF assms(1)]
  have "min N e \<le> N" by simp
  then have le: "unat start \<le> unat (min N e)" "unat (min N e) \<le> unat N"
    using assms(2) by (simp_all only: word_le_nat_alt)
  have a: "unat (start * 16) = unat start * 16"
    using le l(8) by (intro unat_times_16) simp
  have b: "unat (min N e * 16) = unat (min N e) * 16"
    using le l(8) by (intro unat_times_16) simp
  have c: "\<not> min N e < start" using assms(2) by (simp only: not_less)
  show ?thesis
    unfolding zero_nominal_weights_def Let_def std_fill_def
    using c le l(5) by (simp add: a b)
qed

lemma zero_terminal_weights_Done:
  assumes "length (var_WN s) = 16"
  shows "zero_terminal_weights s = Done (s\<lparr>var_WN := (var_WN s)[0 := 0, 5 := 0, 10 := 0, 15 := 0]\<rparr>)"
  using assms by (simp add: zero_terminal_weights_def store_def field_index_defs)

lemma apply_terminal_weights_raises:
  "N \<le> idx \<Longrightarrow> apply_terminal_weights N idx s =
     Raised (logic_error ''Out of bounds terminal weight index'') s"
  by (simp add: apply_terminal_weights_def)

lemma handle_new_trajectory_empty:
  assumes "wf N NU s" "m_interpolated_trajectory s = None"
  shows "\<exists>s'. handle_new_trajectory sample to_angle N [] s =
           Raised (logic_error ''Out of bounds terminal weight index'') s'"
proof -
  note l = wf_lengths [OF assms(1)]
  have z: "size_of ([] :: 'a Trajectory) = 0" by (simp add: size_of_def)
  have n: "apply_nominal_weights N cfg 0 0 s = Done s" for cfg
    by (simp add: apply_nominal_weights_def apply_nominal_loop_stop)
  show ?thesis
  proof (cases "0 < N")
    case True
    have wf': "wf N NU s" by fact
    show ?thesis
      unfolding handle_new_trajectory_def Let_def
      using assms(2) True l(6)
      by (simp add: z set_reference_nothing n zero_nominal_weights_Done [OF wf']
          zero_terminal_weights_Done apply_terminal_weights_raises)
  next
    case False
    then show ?thesis
      unfolding handle_new_trajectory_def Let_def
      using assms(2) l(6)
      by (simp add: z set_reference_nothing n
          zero_terminal_weights_Done apply_terminal_weights_raises)
  qed
qed

lemma wf_buffer10: "wf 10 2 buffer10"
  by (simp add: wf_def buffer10_def)

subsection \<open>Rolling the horizon\<close>

lemma length_copy_loop [simp]: "length (copy_loop n f d a) = length a"
  by (induction n arbitrary: f d a) simp_all

lemma nth_copy_loop:
  assumes "d \<le> f" "f + n \<le> length a" "k < length a"
  shows "copy_loop n f d a ! k = (if d \<le> k \<and> k < d + n then a ! (f + (k - d)) else a ! k)"
  using assms
proof (induction n arbitrary: f d a)
  case 0
  then show ?case by auto
next
  case (Suc n)
  have "copy_loop (Suc n) f d a ! k = copy_loop n (Suc f) (Suc d) (a[d := a ! f]) ! k"
    by simp
  also have "\<dots> = (if Suc d \<le> k \<and> k < Suc d + n
                    then a[d := a ! f] ! (Suc f + (k - Suc d)) else a[d := a ! f] ! k)"
    using Suc.prems by (intro Suc.IH) simp_all
  also have "\<dots> = (if d \<le> k \<and> k < d + Suc n then a ! (f + (k - d)) else a ! k)"
  proof (cases "Suc d \<le> k \<and> k < Suc d + n")
    case True
    then have "Suc f + (k - Suc d) = f + (k - d)" "f + (k - d) \<noteq> d"
      using Suc.prems(1) by arith+
    then show ?thesis using True by simp
  next
    case False
    then show ?thesis using Suc.prems by (auto simp: nth_list_update)
  qed
  finally show ?case .
qed

lemma unat_product:
  fixes a b :: Index
  assumes "unat a * unat b < 2 ^ 64"
  shows "unat (a * b) = unat a * unat b"
  using assms unat_mult_lem [of a b] by simp

lemma unat_succ:
  fixes a b :: Index
  assumes "a < b"
  shows "unat (a + 1) = unat a + 1"
  using assms by unat_arith

lemma advance_problem_Done:
  assumes "wf N NU s" "count < N"
  shows "advance_problem N NU count s =
     Done (s\<lparr>var_x := copy_loop ((unat N - unat count) * 4) ((unat count + 1) * 4) 4 (var_x s),
             var_y := copy_loop ((unat N - unat count) * 4) (unat count * 4) 0 (var_y s),
             var_u := copy_loop ((unat N - unat count) * unat NU) (unat count * unat NU) 0
                        (var_u s)\<rparr>)"
proof -
  note l = wf_lengths [OF assms(1)]
  have c: "unat count < unat N" using assms(2) by (simp add: word_less_nat_alt)
  have c1: "unat (count + 1) = unat count + 1" using assms(2) by (rule unat_succ)
  have n1: "unat (N + 1) = unat N + 1"
    using l(8) unat_add_lem [of N 1] by simp
  have x1: "unat (NX * (count + 1)) = (unat count + 1) * 4"
    using unat_product [of 4 "count + 1"] c l(8) by (simp add: c1)
  have x2: "unat ((N + 1) * NX) = (unat N + 1) * 4"
    using unat_product [of "N + 1" 4] c l(8) by (simp add: n1)
  have y1: "unat (NY * count) = unat count * 4"
    using unat_product [of 4 count] c l(8) by simp
  have y2: "unat (N * NY) = unat N * 4"
    using unat_product [of N 4] l(8) by simp
  have "unat count \<le> unat N" using c by simp
  then have cu: "unat count * unat NU \<le> unat N * unat NU" by (rule mult_le_mono1)
  then have "unat NU * unat count < 2 ^ 64"
    using l(9) by (simp only: mult.commute [of "unat NU"] le_less_trans)
  then have u1: "unat (NU * count) = unat count * unat NU"
    using unat_product [of NU count] by (simp only: mult.commute)
  have u2: "unat (N * NU) = unat N * unat NU"
    using unat_product [of N NU] l(9) by simp
  have d: "(unat N + 1) * 4 - (unat count + 1) * 4 = (unat N - unat count) * 4"
    "unat N * 4 - unat count * 4 = (unat N - unat count) * 4"
    "unat N * unat NU - unat count * unat NU = (unat N - unat count) * unat NU"
    using c by (simp_all add: diff_mult_distrib)
  have nl: "\<not> N \<le> count" using assms(2) by (simp only: not_le)
  show ?thesis
    unfolding advance_problem_def std_copy_def x1 x2 y1 y2 u1 u2 d
    using nl c cu l(1,2,3) by (simp add: diff_mult_distrib)
qed


lemma wf_ramp10: "wf 10 2 ramp10"
  by (simp add: wf_def ramp10_def buffer10_def)

lemma advance_problem_shift_aux:
  assumes "wf N NU s" "count < N"
  shows "\<exists>s'. advance_problem N NU count s = Done s' \<and>
     (\<forall>i < unat N - unat count.
        (\<forall>j<4. stage_ref s' i j = stage_ref s (i + unat count) j) \<and>
        (\<forall>j<unat NU. control NU s' i j = control NU s (i + unat count) j) \<and>
        (\<forall>j<4. state s' (i + 1) j = state s (i + 1 + unat count) j))"
proof -
  note l = wf_lengths [OF assms(1)]
  have c: "unat count < unat N" using assms(2) by (simp add: word_less_nat_alt)
  define s' where "s' = s\<lparr>var_x := copy_loop ((unat N - unat count) * 4) ((unat count + 1) * 4) 4 (var_x s),
             var_y := copy_loop ((unat N - unat count) * 4) (unat count * 4) 0 (var_y s),
             var_u := copy_loop ((unat N - unat count) * unat NU) (unat count * unat NU) 0
                        (var_u s)\<rparr>"
  have run: "advance_problem N NU count s = Done s'"
    unfolding s'_def using assms by (rule advance_problem_Done)
  have "(\<forall>j<4. stage_ref s' i j = stage_ref s (i + unat count) j) \<and>
        (\<forall>j<unat NU. control NU s' i j = control NU s (i + unat count) j) \<and>
        (\<forall>j<4. state s' (i + 1) j = state s (i + 1 + unat count) j)"
    if i: "i < unat N - unat count" for i
  proof (intro conjI allI impI)
    fix j :: nat assume j: "j < 4"
    have "copy_loop ((unat N - unat count) * 4) (unat count * 4) 0 (var_y s) ! (i * 4 + j)
            = var_y s ! (unat count * 4 + (i * 4 + j - 0))"
      using i j c l(3) by (subst nth_copy_loop) auto
    then show "stage_ref s' i j = stage_ref s (i + unat count) j"
      by (simp add: stage_ref_def s'_def algebra_simps)
  next
    fix j :: nat assume j: "j < unat NU"
    have "Suc i * unat NU \<le> (unat N - unat count) * unat NU"
      using i by (intro mult_le_mono1) simp
    then have k: "i * unat NU + j < (unat N - unat count) * unat NU" using j by simp
    have "unat count * unat NU + (unat N - unat count) * unat NU = unat N * unat NU"
      using c by (simp flip: add_mult_distrib)
    then have "copy_loop ((unat N - unat count) * unat NU) (unat count * unat NU) 0 (var_u s)
                 ! (i * unat NU + j)
            = var_u s ! (unat count * unat NU + (i * unat NU + j - 0))"
      using k l(2) by (subst nth_copy_loop) auto
    then show "control NU s' i j = control NU s (i + unat count) j"
      by (simp add: control_def s'_def algebra_simps)
  next
    fix j :: nat assume j: "j < 4"
    have "copy_loop ((unat N - unat count) * 4) ((unat count + 1) * 4) 4 (var_x s)
             ! ((i + 1) * 4 + j)
            = var_x s ! ((unat count + 1) * 4 + ((i + 1) * 4 + j - 4))"
      using i j c l(1) by (subst nth_copy_loop) auto
    then show "state s' (i + 1) j = state s (i + 1 + unat count) j"
      by (simp add: state_def s'_def algebra_simps)
  qed
  with run show ?thesis by blast
qed

lemma advance_problem_frame_aux:
  assumes "wf N NU s" "count < N"
  shows "\<exists>s'. advance_problem N NU count s = Done s' \<and>
     (\<forall>j<4. state s' 0 j = state s 0 j) \<and>
     (\<forall>i r c. stage_weight s' i r c = stage_weight s i r c) \<and>
     (\<forall>r c. terminal_weight s' r c = terminal_weight s r c) \<and>
     (\<forall>j. terminal_ref s' j = terminal_ref s j) \<and>
     s'\<lparr>var_x := var_x s, var_y := var_y s, var_u := var_u s\<rparr> = s"
proof -
  note l = wf_lengths [OF assms(1)]
  have c: "unat count < unat N" using assms(2) by (simp add: word_less_nat_alt)
  define s' where "s' = s\<lparr>var_x := copy_loop ((unat N - unat count) * 4) ((unat count + 1) * 4) 4 (var_x s),
             var_y := copy_loop ((unat N - unat count) * 4) (unat count * 4) 0 (var_y s),
             var_u := copy_loop ((unat N - unat count) * unat NU) (unat count * unat NU) 0
                        (var_u s)\<rparr>"
  have run: "advance_problem N NU count s = Done s'"
    unfolding s'_def using assms by (rule advance_problem_Done)
  have "state s' 0 j = state s 0 j" if "j < 4" for j
  proof -
    have "copy_loop ((unat N - unat count) * 4) ((unat count + 1) * 4) 4 (var_x s) ! j
            = var_x s ! j"
      using that c l(1) by (subst nth_copy_loop) auto
    then show ?thesis by (simp add: state_def s'_def)
  qed
  moreover have "s'\<lparr>var_x := var_x s, var_y := var_y s, var_u := var_u s\<rparr> = s"
    by (simp add: s'_def)
  moreover have "stage_weight s' i r c = stage_weight s i r c" for i r c
    by (simp add: stage_weight_def s'_def)
  moreover have "terminal_weight s' r c = terminal_weight s r c" for r c
    by (simp add: terminal_weight_def s'_def)
  moreover have "terminal_ref s' j = terminal_ref s j" for j
    by (simp add: terminal_ref_def s'_def)
  ultimately show ?thesis using run by blast
qed

subsection \<open>Weight primitives\<close>

lemma stage_weight_index:
  fixes i :: Index
  assumes "unat i * 16 + 15 < 2 ^ 64"
  shows "unat (i * NY2 + (IDY_X * NY) + IDY_X) = unat i * 16"
    and "unat (i * NY2 + (IDY_Y * NY) + IDY_Y) = unat i * 16 + 5"
    and "unat (i * NY2 + (IDY_HEADING * NY) + IDY_HEADING) = unat i * 16 + 10"
    and "unat (i * NY2 + (IDY_VEL_LONG * NY) + IDY_VEL_LONG) = unat i * 16 + 15"
proof -
  have e: "i * NY2 + (IDY_X * NY) + IDY_X = i * 16 + 0"
    "i * NY2 + (IDY_Y * NY) + IDY_Y = i * 16 + 5"
    "i * NY2 + (IDY_HEADING * NY) + IDY_HEADING = i * 16 + 10"
    "i * NY2 + (IDY_VEL_LONG * NY) + IDY_VEL_LONG = i * 16 + 15"
    by (simp_all add: field_index_defs)
  show "unat (i * NY2 + (IDY_X * NY) + IDY_X) = unat i * 16"
    unfolding e using assms unat_affine [of i 16 0] by simp
  show "unat (i * NY2 + (IDY_Y * NY) + IDY_Y) = unat i * 16 + 5"
    unfolding e using assms unat_affine [of i 16 5] by simp
  show "unat (i * NY2 + (IDY_HEADING * NY) + IDY_HEADING) = unat i * 16 + 10"
    unfolding e using assms unat_affine [of i 16 10] by simp
  show "unat (i * NY2 + (IDY_VEL_LONG * NY) + IDY_VEL_LONG) = unat i * 16 + 15"
    unfolding e using assms unat_affine [of i 16 15] by simp
qed

lemma apply_nominal_body_Some:
  assumes "unat i * 16 + 16 \<le> length W" "length W < 2 ^ 64"
  shows "apply_nominal_body cfg i W =
           Some (W[unat i * 16 := pose cfg, unat i * 16 + 5 := pose cfg,
                   unat i * 16 + 10 := heading cfg,
                   unat i * 16 + 15 := longitudinal_velocity cfg])"
proof -
  have b: "unat i * 16 + 15 < 2 ^ 64" using assms by simp
  show ?thesis
    unfolding apply_nominal_body_def Let_def store_def stage_weight_index [OF b]
    using assms by simp
qed

lemma diagonal_offsets: "d < 16 \<Longrightarrow> d mod 5 = 0 \<longleftrightarrow> d = 0 \<or> d = 5 \<or> d = 10 \<or> d = (15::nat)"
  by presburger

lemma nth_stage_update:
  assumes "d < 16" "j * 16 + d < length W"
  shows "W[i * 16 := pose cfg, i * 16 + 5 := pose cfg, i * 16 + 10 := heading cfg,
           i * 16 + 15 := longitudinal_velocity cfg] ! (j * 16 + d) =
         (if j = i \<and> d mod 5 = 0 then weight_of cfg (d div 5) else W ! (j * 16 + d))"
proof (cases "j = i")
  case True
  then show ?thesis
    using assms by (auto simp: nth_list_update weight_of_def diagonal_offsets)
next
  case False
  then have "j * 16 + d \<noteq> i * 16" "j * 16 + d \<noteq> i * 16 + 5" "j * 16 + d \<noteq> i * 16 + 10"
    "j * 16 + d \<noteq> i * 16 + 15"
    using assms(1) by arith+
  then show ?thesis using False by (simp add: nth_list_update)
qed

lemma apply_nominal_loop_result:
  assumes "i \<le> e" "unat e * 16 \<le> length W" "length W < 2 ^ 64"
  shows "\<exists>W'. apply_nominal_loop cfg i e W = Some W' \<and> length W' = length W \<and>
     (\<forall>j d. d < 16 \<longrightarrow> j * 16 + d < length W \<longrightarrow>
        W' ! (j * 16 + d) =
          (if unat i \<le> j \<and> j < unat e \<and> d mod 5 = 0 then weight_of cfg (d div 5)
           else W ! (j * 16 + d)))"
  using assms
proof (induction "unat e - unat i" arbitrary: i W)
  case 0
  then have "\<not> i < e" by (simp add: word_less_nat_alt)
  then have "apply_nominal_loop cfg i e W = Some W" by (rule apply_nominal_loop_stop)
  moreover have "\<not> (unat i \<le> j \<and> j < unat e)" for j using 0 by simp
  ultimately show ?case by auto
next
  case (Suc n)
  then have lt: "i < e" by (simp add: word_less_nat_alt)
  then have u: "unat (i + 1) = unat i + 1" by (rule unat_succ)
  have ui: "unat i < unat e" using lt by (simp add: word_less_nat_alt)
  then have b: "unat i * 16 + 16 \<le> length W" using Suc.prems(2) by simp
  define W1 where "W1 = W[unat i * 16 := pose cfg, unat i * 16 + 5 := pose cfg,
                   unat i * 16 + 10 := heading cfg,
                   unat i * 16 + 15 := longitudinal_velocity cfg]"
  have body: "apply_nominal_body cfg i W = Some W1"
    unfolding W1_def using b Suc.prems(3) by (rule apply_nominal_body_Some)
  have l1: "length W1 = length W" by (simp add: W1_def)
  have "i + 1 \<le> e" using ui u by (simp add: word_le_nat_alt)
  moreover have "n = unat e - unat (i + 1)" using Suc.hyps(2) u by simp
  ultimately obtain W' where r: "apply_nominal_loop cfg (i + 1) e W1 = Some W'"
    and len: "length W' = length W1"
    and nth: "\<forall>j d. d < 16 \<longrightarrow> j * 16 + d < length W1 \<longrightarrow>
        W' ! (j * 16 + d) =
          (if unat (i + 1) \<le> j \<and> j < unat e \<and> d mod 5 = 0 then weight_of cfg (d div 5)
           else W1 ! (j * 16 + d))"
    using Suc.hyps(1) [of "i + 1" W1] Suc.prems(2,3) l1 by auto
  have "apply_nominal_loop cfg i e W = Some W'"
    using lt body r by (subst apply_nominal_loop.simps) simp
  moreover have "W' ! (j * 16 + d) =
          (if unat i \<le> j \<and> j < unat e \<and> d mod 5 = 0 then weight_of cfg (d div 5)
           else W ! (j * 16 + d))" if "d < 16" "j * 16 + d < length W" for j d
  proof -
    have "W1 ! (j * 16 + d) =
        (if j = unat i \<and> d mod 5 = 0 then weight_of cfg (d div 5) else W ! (j * 16 + d))"
      unfolding W1_def using that by (rule nth_stage_update)
    then show ?thesis
      using nth [rule_format, OF that(1)] that(2) l1 u ui by auto
  qed
  ultimately show ?case using len l1 by simp
qed

lemma wf_update:
  assumes "wf N NU s"
  shows "length W' = length (var_W s) \<Longrightarrow> wf N NU (s\<lparr>var_W := W'\<rparr>)"
    and "length WN' = length (var_WN s) \<Longrightarrow> wf N NU (s\<lparr>var_WN := WN'\<rparr>)"
    and "length y' = length (var_y s) \<Longrightarrow> wf N NU (s\<lparr>var_y := y'\<rparr>)"
    and "length yN' = length (var_yN s) \<Longrightarrow> wf N NU (s\<lparr>var_yN := yN'\<rparr>)"
  using assms by (simp_all add: wf_def)

lemma stage_in_buffer:
  assumes "j < n" "d < (m::nat)"
  shows "j * m + d < n * m"
proof -
  have "j * m + d < Suc j * m" using assms(2) by simp
  also have "\<dots> \<le> n * m" using assms(1) by (intro mult_le_mono1) simp
  finally show ?thesis .
qed

lemma apply_nominal_weights_result:
  assumes "wf N NU s" "start \<le> min e N"
  shows "\<exists>W'. apply_nominal_weights N cfg start e s = Done (s\<lparr>var_W := W'\<rparr>) \<and>
     length W' = length (var_W s) \<and>
     (\<forall>j d. d < 16 \<longrightarrow> j < unat N \<longrightarrow>
        W' ! (j * 16 + d) =
          (if unat start \<le> j \<and> j < unat (min e N) \<and> d mod 5 = 0 then weight_of cfg (d div 5)
           else var_W s ! (j * 16 + d)))"
proof -
  note l = wf_lengths [OF assms(1)]
  have "min e N \<le> N" by simp
  then have "unat (min e N) \<le> unat N" by (simp only: word_le_nat_alt)
  then have "unat (min e N) * 16 \<le> length (var_W s)" using l(5) by simp
  moreover have "length (var_W s) < 2 ^ 64" using l(5,8) by simp
  ultimately obtain W' where r: "apply_nominal_loop cfg start (min e N) (var_W s) = Some W'"
    and len: "length W' = length (var_W s)"
    and nth: "\<forall>j d. d < 16 \<longrightarrow> j * 16 + d < length (var_W s) \<longrightarrow>
        W' ! (j * 16 + d) =
          (if unat start \<le> j \<and> j < unat (min e N) \<and> d mod 5 = 0 then weight_of cfg (d div 5)
           else var_W s ! (j * 16 + d))"
    using apply_nominal_loop_result [OF assms(2), of "var_W s" cfg] by blast
  have c: "\<not> min e N < start" using assms(2) by (simp only: not_less)
  have "apply_nominal_weights N cfg start e s = Done (s\<lparr>var_W := W'\<rparr>)"
    unfolding apply_nominal_weights_def Let_def using c r by simp
  moreover have "j * 16 + d < length (var_W s)" if "d < 16" "j < unat N" for j d
    unfolding l(5) using that(2,1) by (rule stage_in_buffer)
  ultimately show ?thesis using len nth by blast
qed

lemma zero_nominal_weights_result:
  assumes "wf N NU s" "start \<le> min N e"
  shows "\<exists>W'. zero_nominal_weights N start e s = Done (s\<lparr>var_W := W'\<rparr>) \<and>
     length W' = length (var_W s) \<and>
     (\<forall>j d. d < 16 \<longrightarrow> j < unat N \<longrightarrow>
        W' ! (j * 16 + d) =
          (if unat start \<le> j \<and> j < unat (min N e) then 0 else var_W s ! (j * 16 + d)))"
proof -
  note l = wf_lengths [OF assms(1)]
  define W' where "W' = fill_loop (unat (min N e) * 16 - unat start * 16)
                                (unat start * 16) 0 (var_W s)"
  have r: "zero_nominal_weights N start e s = Done (s\<lparr>var_W := W'\<rparr>)"
    unfolding W'_def using assms by (rule zero_nominal_weights_Done)
  have le: "unat start \<le> unat (min N e)" using assms(2) by (simp only: word_le_nat_alt)
  have "W' ! (j * 16 + d) =
          (if unat start \<le> j \<and> j < unat (min N e) then 0 else var_W s ! (j * 16 + d))"
    if "d < 16" "j < unat N" for j d
  proof -
    have k: "j * 16 + d < length (var_W s)"
      unfolding l(5) using that(2,1) by (rule stage_in_buffer)
    have "(unat start * 16 \<le> j * 16 + d \<and>
           j * 16 + d < unat start * 16 + (unat (min N e) * 16 - unat start * 16))
          \<longleftrightarrow> unat start \<le> j \<and> j < unat (min N e)"
      using that(1) le by arith
    then show ?thesis unfolding W'_def using k by (simp add: nth_fill_loop)
  qed
  then show ?thesis using r by (auto simp: W'_def)
qed

lemma apply_terminal_weights_result:
  assumes "wf N NU s" "idx < N"
  shows "\<exists>W'. apply_terminal_weights N idx s = Done (s\<lparr>var_W := W'\<rparr>) \<and>
     length W' = length (var_W s) \<and>
     (\<forall>j d. d < 16 \<longrightarrow> j < unat N \<longrightarrow>
        W' ! (j * 16 + d) =
          (if j = unat idx \<and> d mod 5 = 0
           then weight_of (terminal (optimization_param s)) (d div 5)
           else var_W s ! (j * 16 + d)))"
proof -
  have u: "unat (idx + 1) = unat idx + 1" using assms(2) by (rule unat_succ)
  have ui: "unat idx < unat N" using assms(2) by (simp only: word_less_nat_alt)
  then have "idx + 1 \<le> N" using u by (simp add: word_le_nat_alt)
  then have m: "min (idx + 1) N = idx + 1" by (simp only: min_absorb1)
  have "idx \<le> idx + 1" using u by (simp add: word_le_nat_alt)
  then have "idx \<le> min (idx + 1) N" unfolding m .
  from apply_nominal_weights_result [OF assms(1) this, of "terminal (optimization_param s)"]
  obtain W' where
    r: "apply_nominal_weights N (terminal (optimization_param s)) idx (idx + 1) s
          = Done (s\<lparr>var_W := W'\<rparr>)"
    and len: "length W' = length (var_W s)"
    and nth: "\<forall>j d. d < 16 \<longrightarrow> j < unat N \<longrightarrow>
        W' ! (j * 16 + d) =
          (if unat idx \<le> j \<and> j < unat (min (idx + 1) N) \<and> d mod 5 = 0
           then weight_of (terminal (optimization_param s)) (d div 5)
           else var_W s ! (j * 16 + d))"
    by blast
  have nl: "\<not> N \<le> idx" using assms(2) by (simp only: not_le)
  have "apply_terminal_weights N idx s = Done (s\<lparr>var_W := W'\<rparr>)"
    unfolding apply_terminal_weights_def Let_def using nl r by simp
  moreover have "(unat idx \<le> j \<and> j < unat (min (idx + 1) N) \<and> P) \<longleftrightarrow> (j = unat idx \<and> P)"
    for j P unfolding m u by arith
  ultimately show ?thesis using len nth by (intro exI [of _ W']) simp
qed

lemma set_terminal_weights_Done:
  assumes "length (var_WN s) = 16"
  shows "set_terminal_weights cfg s =
     Done (s\<lparr>var_WN := (var_WN s)[0 := pose cfg, 5 := pose cfg, 10 := heading cfg,
                                    15 := longitudinal_velocity cfg]\<rparr>)"
  using assms by (simp add: set_terminal_weights_def store_def field_index_defs)

lemma set_terminal_reference_Done:
  assumes "length (var_yN s) = 4"
  shows "set_terminal_reference to_angle pt s =
     Done (s\<lparr>var_yN := (var_yN s)[0 := pt_x pt, 1 := pt_y pt,
                3 := longitudinal_velocity_mps pt, 2 := to_angle (pt_heading pt)]\<rparr>)"
  using assms by (simp add: set_terminal_reference_def store_def field_index_defs)

subsection \<open>Reference population\<close>

lemma unat_sum:
  fixes a b :: Index
  assumes "unat a + unat b < 2 ^ 64"
  shows "unat (a + b) = unat a + unat b"
  using assms unat_add_lem [of a b] by simp

lemma unat_size_of:
  assumes "length xs < 2 ^ 64"
  shows "unat (size_of xs) = length xs"
  using assms by (simp add: size_of_def unat_of_nat)

lemma reference_index:
  fixes k :: Index
  assumes "unat k * 4 + 3 < 2 ^ 64"
  shows "unat (k * NY + IDY_X) = unat k * 4"
    and "unat (k * NY + IDY_Y) = unat k * 4 + 1"
    and "unat (k * NY + IDY_VEL_LONG) = unat k * 4 + 3"
    and "unat (k * NY + IDY_HEADING) = unat k * 4 + 2"
proof -
  have e: "k * NY + IDY_X = k * 4 + 0" "k * NY + IDY_Y = k * 4 + 1"
    "k * NY + IDY_VEL_LONG = k * 4 + 3" "k * NY + IDY_HEADING = k * 4 + 2"
    by (simp_all add: field_index_defs)
  show "unat (k * NY + IDY_X) = unat k * 4"
    unfolding e using assms unat_affine [of k 4 0] by simp
  show "unat (k * NY + IDY_Y) = unat k * 4 + 1"
    unfolding e using assms unat_affine [of k 4 1] by simp
  show "unat (k * NY + IDY_VEL_LONG) = unat k * 4 + 3"
    unfolding e using assms unat_affine [of k 4 3] by simp
  show "unat (k * NY + IDY_HEADING) = unat k * 4 + 2"
    unfolding e using assms unat_affine [of k 4 2] by simp
qed

lemma set_reference_body_Some:
  assumes "unat traj_start + unat i < length traj" "length traj < 2 ^ 64"
    and "(unat y_start + unat i) * 4 + 4 \<le> length y" "length y < 2 ^ 64"
  shows "set_reference_body to_angle traj y_start traj_start i y =
     Some (y[(unat y_start + unat i) * 4 := pt_x (traj ! (unat traj_start + unat i)),
             (unat y_start + unat i) * 4 + 1 := pt_y (traj ! (unat traj_start + unat i)),
             (unat y_start + unat i) * 4 + 3 :=
                longitudinal_velocity_mps (traj ! (unat traj_start + unat i)),
             (unat y_start + unat i) * 4 + 2 :=
                to_angle (pt_heading (traj ! (unat traj_start + unat i)))])"
proof -
  have t: "unat (traj_start + i) = unat traj_start + unat i"
    using assms(1,2) by (intro unat_sum) simp
  have k: "unat (y_start + i) = unat y_start + unat i"
    using assms(3,4) by (intro unat_sum) simp
  have b: "unat (y_start + i) * 4 + 3 < 2 ^ 64" using assms(3,4) k by simp
  show ?thesis
    unfolding set_reference_body_def Let_def load_def store_def reference_index [OF b] t k
    using assms by simp
qed

lemma nth_reference_update:
  assumes "d < 4" "j * 4 + d < length y"
  shows "y[k * 4 := pt_x pt, k * 4 + 1 := pt_y pt, k * 4 + 3 := longitudinal_velocity_mps pt,
           k * 4 + 2 := to_angle (pt_heading pt)] ! (j * 4 + d) =
         (if j = k then ref_of to_angle pt d else y ! (j * 4 + d))"
proof (cases "j = k")
  case True
  have "d = 0 \<or> d = 1 \<or> d = 2 \<or> d = 3" using assms(1) by arith
  then show ?thesis using True assms(2) by (auto simp: nth_list_update ref_of_def)
next
  case False
  then have "j * 4 + d \<noteq> k * 4" "j * 4 + d \<noteq> k * 4 + 1" "j * 4 + d \<noteq> k * 4 + 2"
    "j * 4 + d \<noteq> k * 4 + 3"
    using assms(1) by arith+
  then show ?thesis using False by (simp add: nth_list_update)
qed

lemma set_reference_loop_result:
  assumes "i \<le> count" "unat traj_start + unat count \<le> length traj" "length traj < 2 ^ 64"
    and "(unat y_start + unat count) * 4 \<le> length y" "length y < 2 ^ 64"
  shows "\<exists>y'. set_reference_loop to_angle traj y_start traj_start i count y = Some y' \<and>
     length y' = length y \<and>
     (\<forall>j d. d < 4 \<longrightarrow> j * 4 + d < length y \<longrightarrow>
        y' ! (j * 4 + d) =
          (if unat y_start + unat i \<le> j \<and> j < unat y_start + unat count
           then ref_of to_angle (traj ! (unat traj_start + (j - unat y_start))) d
           else y ! (j * 4 + d)))"
  using assms
proof (induction "unat count - unat i" arbitrary: i y)
  case 0
  then have "\<not> i < count" by (simp add: word_less_nat_alt)
  then have "set_reference_loop to_angle traj y_start traj_start i count y = Some y"
    by (rule set_reference_loop_stop)
  moreover have "\<not> (unat y_start + unat i \<le> j \<and> j < unat y_start + unat count)" for j
    using 0 by simp
  ultimately show ?case by auto
next
  case (Suc n)
  then have lt: "i < count" by (simp add: word_less_nat_alt)
  then have u: "unat (i + 1) = unat i + 1" by (rule unat_succ)
  have ui: "unat i < unat count" using lt by (simp add: word_less_nat_alt)
  define k where "k = unat y_start + unat i"
  define pt where "pt = traj ! (unat traj_start + unat i)"
  define y1 where "y1 = y[k * 4 := pt_x pt, k * 4 + 1 := pt_y pt,
     k * 4 + 3 := longitudinal_velocity_mps pt, k * 4 + 2 := to_angle (pt_heading pt)]"
  have "unat traj_start + unat i < length traj" using ui Suc.prems(2) by simp
  moreover have "(unat y_start + unat i) * 4 + 4 \<le> length y" using ui Suc.prems(4) by simp
  ultimately have body: "set_reference_body to_angle traj y_start traj_start i y = Some y1"
    unfolding y1_def k_def pt_def using Suc.prems(3,5) by (intro set_reference_body_Some)
  have l1: "length y1 = length y" by (simp add: y1_def)
  have "i + 1 \<le> count" using ui u by (simp add: word_le_nat_alt)
  moreover have "n = unat count - unat (i + 1)" using Suc.hyps(2) u by simp
  ultimately obtain y' where
    r: "set_reference_loop to_angle traj y_start traj_start (i + 1) count y1 = Some y'"
    and len: "length y' = length y1"
    and nth: "\<forall>j d. d < 4 \<longrightarrow> j * 4 + d < length y1 \<longrightarrow>
        y' ! (j * 4 + d) =
          (if unat y_start + unat (i + 1) \<le> j \<and> j < unat y_start + unat count
           then ref_of to_angle (traj ! (unat traj_start + (j - unat y_start))) d
           else y1 ! (j * 4 + d))"
    using Suc.hyps(1) [of "i + 1" y1] Suc.prems(2,3,4,5) l1 by auto
  have "set_reference_loop to_angle traj y_start traj_start i count y = Some y'"
    using lt body r by (subst set_reference_loop.simps) simp
  moreover have "y' ! (j * 4 + d) =
          (if unat y_start + unat i \<le> j \<and> j < unat y_start + unat count
           then ref_of to_angle (traj ! (unat traj_start + (j - unat y_start))) d
           else y ! (j * 4 + d))" if "d < 4" "j * 4 + d < length y" for j d
  proof -
    have "y1 ! (j * 4 + d) = (if j = k then ref_of to_angle pt d else y ! (j * 4 + d))"
      unfolding y1_def using that by (rule nth_reference_update)
    moreover have "unat traj_start + (k - unat y_start) = unat traj_start + unat i"
      by (simp add: k_def)
    ultimately show ?thesis
      using nth [rule_format, OF that(1)] that(2) l1 u ui by (auto simp: k_def pt_def)
  qed
  ultimately show ?case using len l1 by simp
qed

lemma set_reference_result:
  assumes "wf N NU s" "unat y_start + unat count \<le> unat N"
    and "unat traj_start + unat count \<le> length traj" "length traj < 2 ^ 64"
  shows "\<exists>y'. set_reference to_angle N traj y_start traj_start count s = Done (s\<lparr>var_y := y'\<rparr>) \<and>
     length y' = length (var_y s) \<and>
     (\<forall>j d. d < 4 \<longrightarrow> j < unat N \<longrightarrow>
        y' ! (j * 4 + d) =
          (if unat y_start \<le> j \<and> j < unat y_start + unat count
           then ref_of to_angle (traj ! (unat traj_start + (j - unat y_start))) d
           else var_y s ! (j * 4 + d)))"
proof -
  note l = wf_lengths [OF assms(1)]
  have a: "unat (y_start + count) = unat y_start + unat count"
    using assms(2) l(8) by (intro unat_sum) simp
  have b: "unat (traj_start + count) = unat traj_start + unat count"
    using assms(3,4) by (intro unat_sum) simp
  have c: "\<not> (y_start + count > N \<or> traj_start + count > size_of traj)"
    using assms(2,3) by (simp add: word_less_nat_alt a b unat_size_of [OF assms(4)])
  have "(unat y_start + unat count) * 4 \<le> length (var_y s)" using assms(2) l(3) by simp
  moreover have "length (var_y s) < 2 ^ 64" using l(3,8) by simp
  moreover have "(0::Index) \<le> count" by simp
  ultimately obtain y' where
    r: "set_reference_loop to_angle traj y_start traj_start 0 count (var_y s) = Some y'"
    and len: "length y' = length (var_y s)"
    and nth: "\<forall>j d. d < 4 \<longrightarrow> j * 4 + d < length (var_y s) \<longrightarrow>
        y' ! (j * 4 + d) =
          (if unat y_start + unat (0::Index) \<le> j \<and> j < unat y_start + unat count
           then ref_of to_angle (traj ! (unat traj_start + (j - unat y_start))) d
           else var_y s ! (j * 4 + d))"
    using set_reference_loop_result [of 0 count traj_start traj y_start "var_y s" to_angle]
      assms(3,4) by blast
  have "set_reference to_angle N traj y_start traj_start count s = Done (s\<lparr>var_y := y'\<rparr>)"
    unfolding set_reference_def using c r by simp
  moreover have "j * 4 + d < length (var_y s)" if "d < 4" "j < unat N" for j d
    unfolding l(3) using that(2,1) by (rule stage_in_buffer)
  ultimately show ?thesis using len nth by (intro exI [of _ y']) simp
qed

subsection \<open>Refilling the tail of the horizon\<close>

lemma unat_min: "unat (min a b) = min (unat a) (unat (b::Index))"
  by (simp add: min_def word_le_nat_alt)

lemma unat_diff:
  fixes a b :: Index
  assumes "b \<le> a"
  shows "unat (a - b) = unat a - unat b"
  using assms by (rule unat_sub)

lemma and_then_Done [simp]: "and_then (Done s) f = f s"
  by simp

lemma backfill_reference_result:
  fixes s :: "'h mpc"
  assumes "wf N NU s" "count < N" "length (reference_trajectory s) < 2 ^ 63"
  defines "traj \<equiv> reference_trajectory s"
  defines "ts \<equiv> unat (min (current_state_temporal_index s + (N - count)) (size_of traj))"
  defines "sc \<equiv> min (ts + unat count) (length traj) - ts"
  shows "\<exists>y' W' yN' WN'.
     backfill_reference to_angle N count s =
       Done (s\<lparr>var_y := y', var_W := W', var_yN := yN', var_WN := WN'\<rparr>) \<and>
     length y' = length (var_y s) \<and> length W' = length (var_W s) \<and>
     (\<forall>j d. d < 4 \<longrightarrow> j < unat N \<longrightarrow>
        y' ! (j * 4 + d) =
          (if unat N - unat count \<le> j \<and> j < unat N - unat count + sc
           then ref_of to_angle (traj ! (ts + (j - (unat N - unat count)))) d
           else var_y s ! (j * 4 + d))) \<and>
     (\<forall>j d. d < 16 \<longrightarrow> j < unat N \<longrightarrow>
        W' ! (j * 16 + d) =
          (if sc < unat count \<and> j + 1 = unat N - (unat count - sc) \<and> d mod 5 = 0
           then weight_of (terminal (optimization_param s)) (d div 5)
           else if sc < unat count \<and> unat N - (unat count - sc) \<le> j then 0
           else var_W s ! (j * 16 + d))) \<and>
     yN' = (if ts + unat count < length traj
            then (var_yN s)[0 := pt_x (traj ! (ts + unat count)),
                   1 := pt_y (traj ! (ts + unat count)),
                   3 := longitudinal_velocity_mps (traj ! (ts + unat count)),
                   2 := to_angle (pt_heading (traj ! (ts + unat count)))]
            else var_yN s) \<and>
     WN' = (if ts + unat count < length traj then var_WN s
            else (var_WN s)[0 := 0, 5 := 0, 10 := 0, 15 := 0])"
proof -
  note l = wf_lengths [OF assms(1)]
  define c where "c = unat count"
  define n where "n = unat N"
  define L where "L = length traj"
  have cn: "c < n" using assms(2) by (simp add: c_def n_def word_less_nat_alt)
  have n60: "n * 16 < 2 ^ 64" using l(8) by (simp add: n_def)
  have L63: "L < 2 ^ 63" using assms(3) by (simp add: L_def traj_def)
  have L64: "length traj < 2 ^ 64" using L63 by (simp add: L_def)
  \<comment> \<open>the values of the locals\<close>
  define ref_start where "ref_start = N - count"
  define max_pts where "max_pts = size_of traj"
  define traj_start where
    "traj_start = min (current_state_temporal_index s + ref_start) max_pts"
  define traj_end where "traj_end = min (traj_start + count) max_pts"
  define safe_count where "safe_count = traj_end - traj_start"
  have rs: "unat ref_start = n - c"
    unfolding ref_start_def n_def c_def using assms(2) by (intro unat_diff) simp
  have mp: "unat max_pts = L" unfolding max_pts_def L_def using L64 by (rule unat_size_of)
  have ts: "unat traj_start = ts"
    by (simp add: ts_def traj_start_def ref_start_def max_pts_def)
  have tsL: "ts \<le> L" using ts mp by (simp add: traj_start_def unat_min)
  have tc: "unat (traj_start + count) = ts + c"
    unfolding ts [symmetric] c_def using tsL L63 cn n60 ts
    by (intro unat_sum) (simp add: c_def n_def)
  have te: "unat traj_end = min (ts + c) L" by (simp add: traj_end_def unat_min tc mp)
  have "unat traj_start \<le> unat traj_end" using te ts tsL by simp
  then have "traj_start \<le> traj_end" by (simp only: word_le_nat_alt)
  then have "unat safe_count = unat traj_end - unat traj_start"
    unfolding safe_count_def by (rule unat_diff)
  then have sc: "unat safe_count = sc" by (simp add: sc_def te ts c_def L_def)
  have scc: "sc \<le> c" by (simp add: sc_def c_def)
  \<comment> \<open>the call of \<open>set_reference\<close>\<close>
  have "unat ref_start + unat safe_count \<le> unat N" using rs sc scc cn by (simp add: n_def)
  moreover have "unat traj_start + unat safe_count \<le> length traj"
    using ts sc tsL by (simp add: sc_def L_def c_def)
  ultimately obtain y' where
    r1: "set_reference to_angle N traj ref_start traj_start safe_count s = Done (s\<lparr>var_y := y'\<rparr>)"
    and ly: "length y' = length (var_y s)"
    and ny: "\<forall>j d. d < 4 \<longrightarrow> j < unat N \<longrightarrow>
        y' ! (j * 4 + d) =
          (if unat ref_start \<le> j \<and> j < unat ref_start + unat safe_count
           then ref_of to_angle (traj ! (unat traj_start + (j - unat ref_start))) d
           else var_y s ! (j * 4 + d))"
    using set_reference_result [OF assms(1) _ _ L64, of ref_start safe_count traj_start to_angle]
    by blast
  define s1 where "s1 = s\<lparr>var_y := y'\<rparr>"
  have wf1: "wf N NU s1" unfolding s1_def using assms(1) ly by (rule wf_update(3))
  \<comment> \<open>the weights of the stages the trajectory does not reach\<close>
  have "\<exists>W'. (if safe_count < count
               then and_then (zero_nominal_weights N (N - (count - safe_count)) N s1)
                      (apply_terminal_weights N (N - (count - safe_count + 1)))
               else Done s1) = Done (s1\<lparr>var_W := W'\<rparr>) \<and>
          length W' = length (var_W s) \<and>
          (\<forall>j d. d < 16 \<longrightarrow> j < unat N \<longrightarrow>
            W' ! (j * 16 + d) =
              (if sc < c \<and> j + 1 = n - (c - sc) \<and> d mod 5 = 0
               then weight_of (terminal (optimization_param s)) (d div 5)
               else if sc < c \<and> n - (c - sc) \<le> j then 0
               else var_W s ! (j * 16 + d)))"
  proof (cases "safe_count < count")
    case False
    then have "\<not> sc < c" by (simp add: word_less_nat_alt sc c_def)
    moreover have "s1\<lparr>var_W := var_W s\<rparr> = s1" by (simp add: s1_def)
    ultimately show ?thesis using False by (intro exI [of _ "var_W s"]) simp
  next
    case True
    then have lt: "sc < c" by (simp add: word_less_nat_alt sc c_def)
    define remainder where "remainder = count - safe_count"
    have "safe_count \<le> count" using True by simp
    then have rem: "unat remainder = c - sc"
      unfolding remainder_def c_def sc [symmetric] by (rule unat_diff)
    have "unat remainder \<le> unat N" using rem cn by (simp add: n_def)
    then have "remainder \<le> N" by (simp only: word_le_nat_alt)
    then have st: "unat (N - remainder) = n - (c - sc)"
      unfolding n_def rem [symmetric] by (rule unat_diff)
    have r1': "unat (remainder + 1) = c - sc + 1"
      using rem cn n60 unat_sum [of remainder 1] by simp
    then have "unat (remainder + 1) \<le> unat N" using cn by (simp add: n_def)
    then have "remainder + 1 \<le> N" by (simp only: word_le_nat_alt)
    then have "unat (N - (remainder + 1)) = unat N - unat (remainder + 1)" by (rule unat_diff)
    then have ti: "unat (N - (remainder + 1)) = n - (c - sc) - 1" by (simp add: r1' n_def)
    have "unat (N - remainder) \<le> unat N" using st by (simp add: n_def)
    then have "N - remainder \<le> min N N" by (simp add: word_le_nat_alt)
    from zero_nominal_weights_result [OF wf1 this]
    obtain W1 where z: "zero_nominal_weights N (N - remainder) N s1 = Done (s1\<lparr>var_W := W1\<rparr>)"
      and l1: "length W1 = length (var_W s1)"
      and n1: "\<forall>j d. d < 16 \<longrightarrow> j < unat N \<longrightarrow>
        W1 ! (j * 16 + d) =
          (if unat (N - remainder) \<le> j \<and> j < unat (min N N) then 0
           else var_W s1 ! (j * 16 + d))"
      by blast
    define s2 where "s2 = s1\<lparr>var_W := W1\<rparr>"
    have wf2: "wf N NU s2" unfolding s2_def using wf1 l1 by (rule wf_update(1))
    have "unat (N - (remainder + 1)) < unat N" using ti cn lt by (simp add: n_def)
    then have "N - (remainder + 1) < N" by (simp only: word_less_nat_alt)
    from apply_terminal_weights_result [OF wf2 this]
    obtain W2 where a: "apply_terminal_weights N (N - (remainder + 1)) s2 = Done (s2\<lparr>var_W := W2\<rparr>)"
      and l2: "length W2 = length (var_W s2)"
      and n2: "\<forall>j d. d < 16 \<longrightarrow> j < unat N \<longrightarrow>
        W2 ! (j * 16 + d) =
          (if j = unat (N - (remainder + 1)) \<and> d mod 5 = 0
           then weight_of (terminal (optimization_param s2)) (d div 5)
           else var_W s2 ! (j * 16 + d))"
      by blast
    have run: "(if safe_count < count
               then and_then (zero_nominal_weights N (N - (count - safe_count)) N s1)
                      (apply_terminal_weights N (N - (count - safe_count + 1)))
               else Done s1) = Done (s1\<lparr>var_W := W2\<rparr>)"
      using True z a by (simp add: remainder_def [symmetric] s2_def)
    have "W2 ! (j * 16 + d) =
              (if sc < c \<and> j + 1 = n - (c - sc) \<and> d mod 5 = 0
               then weight_of (terminal (optimization_param s)) (d div 5)
               else if sc < c \<and> n - (c - sc) \<le> j then 0
               else var_W s ! (j * 16 + d))" if "d < 16" "j < unat N" for j d
    proof -
      have e: "j = n - (c - sc) - 1 \<longleftrightarrow> j + 1 = n - (c - sc)" using cn lt scc by arith
      have a1: "W1 ! (j * 16 + d) = (if n - (c - sc) \<le> j then 0 else var_W s ! (j * 16 + d))"
        using n1 [rule_format, OF that] that(2) unfolding st by (simp add: s1_def)
      have a2: "W2 ! (j * 16 + d) =
          (if j = n - (c - sc) - 1 \<and> d mod 5 = 0
           then weight_of (terminal (optimization_param s)) (d div 5)
           else W1 ! (j * 16 + d))"
        using n2 [rule_format, OF that] unfolding ti by (simp add: s2_def s1_def)
      show ?thesis unfolding a2 a1 e using lt by simp
    qed
    moreover have "length W2 = length (var_W s)" using l2 l1 by (simp add: s2_def s1_def)
    ultimately show ?thesis using run by (intro exI [of _ W2]) simp
  qed
  then obtain W' where
    r2: "(if safe_count < count
               then and_then (zero_nominal_weights N (N - (count - safe_count)) N s1)
                      (apply_terminal_weights N (N - (count - safe_count + 1)))
               else Done s1) = Done (s1\<lparr>var_W := W'\<rparr>)"
    and lW: "length W' = length (var_W s)"
    and nW: "\<forall>j d. d < 16 \<longrightarrow> j < unat N \<longrightarrow>
            W' ! (j * 16 + d) =
              (if sc < c \<and> j + 1 = n - (c - sc) \<and> d mod 5 = 0
               then weight_of (terminal (optimization_param s)) (d div 5)
               else if sc < c \<and> n - (c - sc) \<le> j then 0
               else var_W s ! (j * 16 + d))"
    by blast
  define s3 where "s3 = s1\<lparr>var_W := W'\<rparr>"
  \<comment> \<open>the terminal reference\<close>
  define yN' where "yN' = (if ts + c < L
            then (var_yN s)[0 := pt_x (traj ! (ts + c)),
                   1 := pt_y (traj ! (ts + c)),
                   3 := longitudinal_velocity_mps (traj ! (ts + c)),
                   2 := to_angle (pt_heading (traj ! (ts + c)))]
            else var_yN s)"
  define WN' where "WN' = (if ts + c < L then var_WN s
            else (var_WN s)[0 := 0, 5 := 0, 10 := 0, 15 := 0])"
  have cmp: "traj_start + count < max_pts \<longleftrightarrow> ts + c < L"
    by (simp add: word_less_nat_alt tc mp)
  have r3: "(if traj_start + count < max_pts
        then (case load (reference_trajectory s3) (traj_start + count) of
                None \<Rightarrow> Undefined
              | Some pt \<Rightarrow> set_terminal_reference to_angle pt s3)
        else zero_terminal_weights s3) = Done (s3\<lparr>var_yN := yN', var_WN := WN'\<rparr>)"
  proof (cases "ts + c < L")
    case True
    have "load (reference_trajectory s3) (traj_start + count) = Some (traj ! (ts + c))"
      using True by (simp add: load_def tc s3_def s1_def traj_def L_def)
    moreover have "length (var_yN s3) = 4" using l(4) by (simp add: s3_def s1_def)
    ultimately show ?thesis
      using True cmp
      by (simp add: set_terminal_reference_Done yN'_def WN'_def s3_def s1_def)
  next
    case False
    have "length (var_WN s3) = 16" using l(6) by (simp add: s3_def s1_def)
    then show ?thesis
      using False cmp
      by (simp add: zero_terminal_weights_Done yN'_def WN'_def s3_def s1_def)
  qed
  have nl: "\<not> N \<le> count" using assms(2) by (simp only: not_le)
  have run: "backfill_reference to_angle N count s =
       Done (s\<lparr>var_y := y', var_W := W', var_yN := yN', var_WN := WN'\<rparr>)"
    unfolding backfill_reference_def Let_def
    unfolding ref_start_def [symmetric] traj_def [symmetric] max_pts_def [symmetric]
    unfolding traj_start_def [symmetric]
    unfolding traj_end_def [symmetric]
    unfolding safe_count_def [symmetric]
    by (simp only: nl if_False r1 and_then.simps r2 [unfolded s1_def]
          r3 [unfolded s3_def s1_def])
  have ny': "\<forall>j d. d < 4 \<longrightarrow> j < unat N \<longrightarrow> y' ! (j * 4 + d) =
          (if unat N - unat count \<le> j \<and> j < unat N - unat count + sc
           then ref_of to_angle (traj ! (ts + (j - (unat N - unat count)))) d
           else var_y s ! (j * 4 + d))"
    using ny unfolding rs ts sc n_def c_def .
  note nW' = nW [unfolded c_def n_def]
  note yN = yN'_def [unfolded c_def L_def]
  note WN = WN'_def [unfolded c_def L_def]
  from run ly lW ny' nW' yN WN show ?thesis by blast
qed

lemma wf_tracking10: "wf 10 2 (tracking10 k)"
  by (simp add: wf_def tracking10_def buffer10_def)

lemma stage_weight_entry:
  fixes r c :: nat
  assumes "r < 4" "c < 4"
  shows "r * 4 + c < 16" "(r * 4 + c) mod 5 = 0 \<longleftrightarrow> r = c"
proof -
  show "r * 4 + c < 16" using assms by simp
  have "r = 0 \<or> r = 1 \<or> r = 2 \<or> r = 3" "c = 0 \<or> c = 1 \<or> c = 2 \<or> c = 3"
    using assms by arith+
  then show "(r * 4 + c) mod 5 = 0 \<longleftrightarrow> r = c" by (elim disjE) simp_all
qed

lemma backfill_reference_soft_landing_aux:
  fixes s :: "'h mpc"
  assumes "wf 10 NU s"
    and "length (reference_trajectory s) = unat (current_state_temporal_index s) + 5 + 2"
    and "length (reference_trajectory s) < 2 ^ 63"
  shows "\<exists>s'. backfill_reference to_angle 10 5 s = Done s' \<and>
     soft_landing to_angle (unat (current_state_temporal_index s) + 5) s s'"
proof -
  define k where "k = unat (current_state_temporal_index s)"
  have L: "length (reference_trajectory s) = k + 7" using assms(2) by (simp add: k_def)
  have L64: "length (reference_trajectory s) < 2 ^ 64" using assms(3) by simp
  have "unat (current_state_temporal_index s + 5) = k + 5"
    unfolding k_def using assms(3) L unat_sum [of "current_state_temporal_index s" 5]
    by (simp add: k_def)
  then have ts: "unat (min (current_state_temporal_index s + (10 - 5))
                      (size_of (reference_trajectory s))) = k + 5"
    using L by (simp add: unat_min unat_size_of [OF L64])
  have h: "(5::Index) < 10" by simp
  from backfill_reference_result [OF assms(1) h assms(3), of to_angle, unfolded ts]
  obtain y' W' yN' WN' where
    run: "backfill_reference to_angle 10 5 s =
       Done (s\<lparr>var_y := y', var_W := W', var_yN := yN', var_WN := WN'\<rparr>)"
    and ny: "\<forall>j d. d < 4 \<longrightarrow> j < unat (10::Index) \<longrightarrow>
        y' ! (j * 4 + d) =
          (if unat (10::Index) - unat (5::Index) \<le> j \<and>
              j < unat (10::Index) - unat (5::Index) +
                  (min (k + 5 + unat (5::Index)) (length (reference_trajectory s)) - (k + 5))
           then ref_of to_angle
                  (reference_trajectory s ! (k + 5 + (j - (unat (10::Index) - unat (5::Index))))) d
           else var_y s ! (j * 4 + d))"
    and nW: "\<forall>j d. d < 16 \<longrightarrow> j < unat (10::Index) \<longrightarrow>
        W' ! (j * 16 + d) =
          (if min (k + 5 + unat (5::Index)) (length (reference_trajectory s)) - (k + 5)
                < unat (5::Index) \<and>
              j + 1 = unat (10::Index) - (unat (5::Index) -
                 (min (k + 5 + unat (5::Index)) (length (reference_trajectory s)) - (k + 5))) \<and>
              d mod 5 = 0
           then weight_of (terminal (optimization_param s)) (d div 5)
           else if min (k + 5 + unat (5::Index)) (length (reference_trajectory s)) - (k + 5)
                     < unat (5::Index) \<and>
                   unat (10::Index) - (unat (5::Index) -
                     (min (k + 5 + unat (5::Index)) (length (reference_trajectory s)) - (k + 5)))
                     \<le> j
                then 0
                else var_W s ! (j * 16 + d))"
    by blast
  define s' where "s' = s\<lparr>var_y := y', var_W := W', var_yN := yN', var_WN := WN'\<rparr>"
  have y: "y' ! (j * 4 + d) = ref_of to_angle (reference_trajectory s ! (k + 5 + (j - 5))) d"
    if "d < 4" "j = 5 \<or> j = 6" for j d
    using ny [rule_format, OF that(1), of j] that(2) L by auto
  have W: "W' ! (j * 16 + d) =
             (if j = 6 \<and> d mod 5 = 0 then weight_of (terminal (optimization_param s)) (d div 5)
              else if 7 \<le> j then 0 else var_W s ! (j * 16 + d))"
    if "d < 16" "j < 10" for j d
    using nW [rule_format, OF that(1), of j] that(2) L by auto
  have "stage_ref s' 5 d = ref_of to_angle (reference_trajectory s ! (k + 5)) d \<and>
        stage_ref s' 6 d = ref_of to_angle (reference_trajectory s ! (k + 5 + 1)) d"
    if "d < 4" for d
    using y [OF that, of 5] y [OF that, of 6] by (simp add: stage_ref_def s'_def)
  moreover have "stage_weight s' i r c = 0" if "i < 10" "7 \<le> i" "r < 4" "c < 4" for i r c
  proof -
    have "i \<noteq> 6" using that(2) by simp
    then have "W' ! (i * 16 + (r * 4 + c)) = 0"
      using W [OF stage_weight_entry(1) [OF that(3,4)] that(1)] that(2) by (simp only: simp_thms if_False if_True)
    then show ?thesis by (simp add: stage_weight_def s'_def)
  qed
  moreover have "stage_weight s' 6 r r = weight_of (terminal (optimization_param s)) r"
    if "r < 4" for r
  proof -
    have "(r * 4 + r) div 5 = r" by simp
    then show ?thesis
      using W [OF stage_weight_entry(1) [OF that that], of 6] stage_weight_entry(2) [OF that that]
      by (simp add: stage_weight_def s'_def)
  qed
  ultimately have sl: "soft_landing to_angle (k + 5) s s'"
    unfolding soft_landing_def by blast
  have "backfill_reference to_angle 10 5 s = Done s'" unfolding s'_def by (rule run)
  then show ?thesis using sl unfolding k_def by (intro exI [of _ s'] conjI)
qed

lemma backfill_reference_exhausted:
  fixes s :: "'h mpc"
  assumes "wf 10 NU s"
    and "length (reference_trajectory s) = unat (current_state_temporal_index s) + 2"
    and "length (reference_trajectory s) < 2 ^ 63"
  shows "\<exists>s'. backfill_reference to_angle 10 5 s = Done s' \<and>
     var_y s' = var_y s \<and>
     (\<forall>i<10. 5 \<le> i \<longrightarrow> (\<forall>r<4. \<forall>c<4. stage_weight s' i r c = 0)) \<and>
     (\<forall>r<4. stage_weight s' 4 r r = weight_of (terminal (optimization_param s)) r)"
proof -
  note l = wf_lengths [OF assms(1)]
  define k where "k = unat (current_state_temporal_index s)"
  have L: "length (reference_trajectory s) = k + 2" using assms(2) by (simp add: k_def)
  have L64: "length (reference_trajectory s) < 2 ^ 64" using assms(3) by simp
  have "unat (current_state_temporal_index s + 5) = k + 5"
    unfolding k_def using assms(3) L unat_sum [of "current_state_temporal_index s" 5]
    by (simp add: k_def)
  then have ts: "unat (min (current_state_temporal_index s + (10 - 5))
                      (size_of (reference_trajectory s))) = k + 2"
    using L by (simp add: unat_min unat_size_of [OF L64])
  have h: "(5::Index) < 10" by simp
  from backfill_reference_result [OF assms(1) h assms(3), of to_angle, unfolded ts]
  obtain y' W' yN' WN' where
    run: "backfill_reference to_angle 10 5 s =
       Done (s\<lparr>var_y := y', var_W := W', var_yN := yN', var_WN := WN'\<rparr>)"
    and ly: "length y' = length (var_y s)"
    and ny: "\<forall>j d. d < 4 \<longrightarrow> j < unat (10::Index) \<longrightarrow>
        y' ! (j * 4 + d) =
          (if unat (10::Index) - unat (5::Index) \<le> j \<and>
              j < unat (10::Index) - unat (5::Index) +
                  (min (k + 2 + unat (5::Index)) (length (reference_trajectory s)) - (k + 2))
           then ref_of to_angle
                  (reference_trajectory s ! (k + 2 + (j - (unat (10::Index) - unat (5::Index))))) d
           else var_y s ! (j * 4 + d))"
    and nW: "\<forall>j d. d < 16 \<longrightarrow> j < unat (10::Index) \<longrightarrow>
        W' ! (j * 16 + d) =
          (if min (k + 2 + unat (5::Index)) (length (reference_trajectory s)) - (k + 2)
                < unat (5::Index) \<and>
              j + 1 = unat (10::Index) - (unat (5::Index) -
                 (min (k + 2 + unat (5::Index)) (length (reference_trajectory s)) - (k + 2))) \<and>
              d mod 5 = 0
           then weight_of (terminal (optimization_param s)) (d div 5)
           else if min (k + 2 + unat (5::Index)) (length (reference_trajectory s)) - (k + 2)
                     < unat (5::Index) \<and>
                   unat (10::Index) - (unat (5::Index) -
                     (min (k + 2 + unat (5::Index)) (length (reference_trajectory s)) - (k + 2)))
                     \<le> j
                then 0
                else var_W s ! (j * 16 + d))"
    by blast
  define s' where "s' = s\<lparr>var_y := y', var_W := W', var_yN := yN', var_WN := WN'\<rparr>"
  have W: "W' ! (j * 16 + d) =
             (if j = 4 \<and> d mod 5 = 0 then weight_of (terminal (optimization_param s)) (d div 5)
              else if 5 \<le> j then 0 else var_W s ! (j * 16 + d))"
    if "d < 16" "j < 10" for j d
    using nW [rule_format, OF that(1), of j] that(2) L by auto
  have "y' ! m = var_y s ! m" if "m < length y'" for m
  proof -
    have "m div 4 < 10" "m mod 4 < 4" using that ly l(3) by simp_all
    then have "y' ! ((m div 4) * 4 + m mod 4) = var_y s ! ((m div 4) * 4 + m mod 4)"
      using ny [rule_format, of "m mod 4" "m div 4"] L by simp
    then show ?thesis by (simp only: div_mult_mod_eq)
  qed
  then have "y' = var_y s" using ly by (intro nth_equalityI) simp_all
  then have "var_y s' = var_y s" by (simp add: s'_def)
  moreover have "stage_weight s' i r c = 0" if "i < 10" "5 \<le> i" "r < 4" "c < 4" for i r c
  proof -
    have "i \<noteq> 4" using that(2) by simp
    then have "W' ! (i * 16 + (r * 4 + c)) = 0"
      using W [OF stage_weight_entry(1) [OF that(3,4)] that(1)] that(2) by (simp only: simp_thms if_False if_True)
    then show ?thesis by (simp add: stage_weight_def s'_def)
  qed
  moreover have "stage_weight s' 4 r r = weight_of (terminal (optimization_param s)) r"
    if "r < 4" for r
  proof -
    have "(r * 4 + r) div 5 = r" by simp
    then show ?thesis
      using W [OF stage_weight_entry(1) [OF that that], of 4] stage_weight_entry(2) [OF that that]
      by (simp add: stage_weight_def s'_def)
  qed
  ultimately show ?thesis using run unfolding s'_def by blast
qed

lemma backfill_locals:
  fixes s :: "'h mpc"
  assumes "wf N NU s" "count < N" "length (reference_trajectory s) < 2 ^ 63"
  defines "max_pts \<equiv> size_of (reference_trajectory s)"
  defines "traj_start \<equiv> min (current_state_temporal_index s + (N - count)) max_pts"
  defines "traj_end \<equiv> min (traj_start + count) max_pts"
  defines "safe_count \<equiv> traj_end - traj_start"
  shows "unat (N - count) = unat N - unat count"
    and "unat traj_start \<le> length (reference_trajectory s)"
    and "unat traj_end = min (unat traj_start + unat count) (length (reference_trajectory s))"
    and "unat safe_count = unat traj_end - unat traj_start"
    and "safe_count \<le> count"
    and "unat (count - safe_count) = unat count - unat safe_count"
    and "unat (N - (count - safe_count)) = unat N - (unat count - unat safe_count)"
    and "unat (N - (count - safe_count + 1)) = unat N - (unat count - unat safe_count) - 1"
proof -
  note l = wf_lengths [OF assms(1)]
  have cn: "unat count < unat N" using assms(2) by (simp add: word_less_nat_alt)
  have L64: "length (reference_trajectory s) < 2 ^ 64" using assms(3) by simp
  have mp: "unat max_pts = length (reference_trajectory s)"
    unfolding max_pts_def using L64 by (rule unat_size_of)
  show rs: "unat (N - count) = unat N - unat count"
    using assms(2) by (intro unat_diff) simp
  show tsL: "unat traj_start \<le> length (reference_trajectory s)"
    using mp by (simp add: traj_start_def unat_min)
  have tc: "unat (traj_start + count) = unat traj_start + unat count"
    using tsL assms(3) cn l(8) by (intro unat_sum) simp
  show te: "unat traj_end = min (unat traj_start + unat count) (length (reference_trajectory s))"
    by (simp add: traj_end_def unat_min tc mp)
  have "unat traj_start \<le> unat traj_end" using te tsL by simp
  then have "traj_start \<le> traj_end" by (simp only: word_le_nat_alt)
  then show sc: "unat safe_count = unat traj_end - unat traj_start"
    unfolding safe_count_def by (rule unat_diff)
  have scc: "unat safe_count \<le> unat count" using sc te by simp
  then show le: "safe_count \<le> count" by (simp only: word_le_nat_alt)
  then show rem: "unat (count - safe_count) = unat count - unat safe_count" by (rule unat_diff)
  have "unat (count - safe_count) \<le> unat N" using rem cn by simp
  then have "count - safe_count \<le> N" by (simp only: word_le_nat_alt)
  then show "unat (N - (count - safe_count)) = unat N - (unat count - unat safe_count)"
    unfolding rem [symmetric] by (rule unat_diff)
  have r1: "unat (count - safe_count + 1) = unat count - unat safe_count + 1"
    using rem cn l(8) unat_sum [of "count - safe_count" 1] by simp
  then have "unat (count - safe_count + 1) \<le> unat N" using cn by simp
  then have "count - safe_count + 1 \<le> N" by (simp only: word_le_nat_alt)
  then have "unat (N - (count - safe_count + 1)) = unat N - unat (count - safe_count + 1)"
    by (rule unat_diff)
  then show "unat (N - (count - safe_count + 1)) = unat N - (unat count - unat safe_count) - 1"
    by (simp add: r1)
qed

lemma backfill_reference_calls_aux:
  fixes s :: "'h mpc"
  assumes "wf N NU s" "count < N" "length (reference_trajectory s) < 2 ^ 63"
  shows "(let ref_start = N - count;
              max_pts = size_of (reference_trajectory s);
              curr_idx = current_state_temporal_index s;
              traj_start = min (curr_idx + ref_start) max_pts;
              traj_end = min (traj_start + count) max_pts;
              safe_count = traj_end - traj_start;
              remainder = count - safe_count
          in unat ref_start + unat safe_count \<le> unat N \<and>
             unat traj_start + unat safe_count \<le> length (reference_trajectory s) \<and>
             N - remainder \<le> N \<and>
             (safe_count < count \<longrightarrow>
                1 \<le> unat remainder \<and>
                int (unat (N - (remainder + 1))) = int (unat N) - int (unat remainder) - 1 \<and>
                N - (remainder + 1) < N)) \<and>
         (\<exists>s'. backfill_reference to_angle N count s = Done s')"
proof -
  have cn: "unat count < unat N" using assms(2) by (simp add: word_less_nat_alt)
  note b = backfill_locals [OF assms]
  define safe_count where "safe_count =
     min (min (current_state_temporal_index s + (N - count)) (size_of (reference_trajectory s))
          + count) (size_of (reference_trajectory s))
     - min (current_state_temporal_index s + (N - count)) (size_of (reference_trajectory s))"
  note b' = b [folded safe_count_def]
  have scc: "unat safe_count \<le> unat count" using b'(5) by (simp only: word_le_nat_alt)
  have 1: "unat (N - count) + unat safe_count \<le> unat N" using b'(1) scc cn by simp
  have 2: "unat (min (current_state_temporal_index s + (N - count))
                   (size_of (reference_trajectory s))) + unat safe_count
             \<le> length (reference_trajectory s)"
    using b'(2,3,4) by simp
  have "unat (N - (count - safe_count)) \<le> unat N" using b'(7) by simp
  then have 3: "N - (count - safe_count) \<le> N" by (simp only: word_le_nat_alt)
  have 4: "1 \<le> unat (count - safe_count) \<and>
        int (unat (N - (count - safe_count + 1)))
          = int (unat N) - int (unat (count - safe_count)) - 1 \<and>
        N - (count - safe_count + 1) < N" if "safe_count < count"
  proof -
    have lt: "unat safe_count < unat count" using that by (simp only: word_less_nat_alt)
    then have "unat (N - (count - safe_count + 1)) < unat N" using b'(8) cn by simp
    then have "N - (count - safe_count + 1) < N" by (simp only: word_less_nat_alt)
    then show ?thesis using lt cn b'(6,8) by simp
  qed
  from backfill_reference_result [OF assms, of to_angle]
  have "\<exists>s'. backfill_reference to_angle N count s = Done s'" by blast
  then show ?thesis
    unfolding Let_def safe_count_def [symmetric] using 1 2 3 4 by blast
qed

subsection \<open>A new trajectory\<close>

lemma terminal_weight_entry:
  fixes r c :: nat
  assumes "r < 4" "c < 4" "length WN = 16"
  shows "(WN[0 := a0, 5 := a1, 10 := a2, 15 := a3]) ! (r * 4 + c) =
     (if r = c then [a0, a1, a2, a3] ! r else WN ! (r * 4 + c))"
proof -
  have "r = 0 \<or> r = 1 \<or> r = 2 \<or> r = 3" "c = 0 \<or> c = 1 \<or> c = 2 \<or> c = 3"
    using assms by arith+
  then show ?thesis using assms(3) by (elim disjE) (simp_all add: nth_list_update)
qed

lemma handle_new_trajectory_short_aux:
  fixes s :: "'h mpc"
  assumes "wf 10 NU s" "m_interpolated_trajectory s = None" "length trajectory = 5"
    and "\<forall>r<4. \<forall>c<4. r \<noteq> c \<longrightarrow> terminal_weight s r c = 0"
  shows "\<exists>s'. handle_new_trajectory sample to_angle 10 trajectory s = Done (trajectory, s') \<and>
     (\<forall>i<10. 5 \<le> i \<longrightarrow> (\<forall>r<4. \<forall>c<4. stage_weight s' i r c = 0)) \<and>
     (\<forall>r<4. stage_weight s' 4 r r = weight_of (terminal (optimization_param s)) r) \<and>
     (\<forall>r<4. \<forall>c<4. terminal_weight s' r c = 0)"
proof -
  note l = wf_lengths [OF assms(1)]
  have sz: "size_of trajectory = 5" by (simp add: size_of_def assms(3))
  have "unat (0::Index) + unat (5::Index) \<le> unat (10::Index)"
    "unat (0::Index) + unat (5::Index) \<le> length trajectory" "length trajectory < 2 ^ 64"
    using assms(3) by simp_all
  from set_reference_result [OF assms(1) this, of to_angle]
  obtain y' where r1: "set_reference to_angle 10 trajectory 0 0 5 s = Done (s\<lparr>var_y := y'\<rparr>)"
    and ly: "length y' = length (var_y s)"
    by blast
  define s1 where "s1 = s\<lparr>var_y := y'\<rparr>"
  have wf1: "wf 10 NU s1" unfolding s1_def using assms(1) ly by (rule wf_update(3))
  have "(0::Index) \<le> min 5 10" by simp
  from apply_nominal_weights_result [OF wf1 this, of "nominal (optimization_param s)"]
  obtain W1 where
    r2: "apply_nominal_weights 10 (nominal (optimization_param s)) 0 5 s1 = Done (s1\<lparr>var_W := W1\<rparr>)"
    and l1: "length W1 = length (var_W s1)"
    by blast
  define s2 where "s2 = s1\<lparr>var_W := W1\<rparr>"
  have wf2: "wf 10 NU s2" unfolding s2_def using wf1 l1 by (rule wf_update(1))
  have "(5::Index) \<le> min 10 10" by simp
  from zero_nominal_weights_result [OF wf2 this]
  obtain W2 where r3: "zero_nominal_weights 10 5 10 s2 = Done (s2\<lparr>var_W := W2\<rparr>)"
    and l2: "length W2 = length (var_W s2)"
    and n2: "\<forall>j d. d < 16 \<longrightarrow> j < unat (10::Index) \<longrightarrow>
        W2 ! (j * 16 + d) =
          (if unat (5::Index) \<le> j \<and> j < unat (min 10 10 :: Index) then 0
           else var_W s2 ! (j * 16 + d))"
    by blast
  define s3 where "s3 = s2\<lparr>var_W := W2\<rparr>"
  have wf3: "wf 10 NU s3" unfolding s3_def using wf2 l2 by (rule wf_update(1))
  define WN' where "WN' = (var_WN s)[0 := 0, 5 := 0, 10 := 0, 15 := 0]"
  define s4 where "s4 = s3\<lparr>var_WN := WN'\<rparr>"
  have r4: "zero_terminal_weights s3 = Done s4"
    using l(6) by (simp add: zero_terminal_weights_Done s4_def WN'_def s3_def s2_def s1_def)
  have wf4: "wf 10 NU s4"
    unfolding s4_def using wf3 by (rule wf_update(2)) (simp add: WN'_def s3_def s2_def s1_def)
  have "(4::Index) < 10" by simp
  from apply_terminal_weights_result [OF wf4 this]
  obtain W3 where r5: "apply_terminal_weights 10 4 s4 = Done (s4\<lparr>var_W := W3\<rparr>)"
    and n3: "\<forall>j d. d < 16 \<longrightarrow> j < unat (10::Index) \<longrightarrow>
        W3 ! (j * 16 + d) =
          (if j = unat (4::Index) \<and> d mod 5 = 0
           then weight_of (terminal (optimization_param s4)) (d div 5)
           else var_W s4 ! (j * 16 + d))"
    by blast
  define s' where "s' = s4\<lparr>var_W := W3, m_last_reference_index := 0\<rparr>"
  have run: "handle_new_trajectory sample to_angle 10 trajectory s = Done (trajectory, s')"
    unfolding handle_new_trajectory_def Let_def
    by (simp add: assms(2) sz r1 r2 [unfolded s1_def] r3 [unfolded s2_def s1_def, simplified]
        r4 [unfolded s4_def s3_def s2_def s1_def, simplified]
        r5 [unfolded s4_def s3_def s2_def s1_def, simplified]
        s'_def s4_def s3_def s2_def s1_def)
  have W: "W3 ! (j * 16 + d) =
             (if j = 4 \<and> d mod 5 = 0 then weight_of (terminal (optimization_param s)) (d div 5)
              else if 5 \<le> j then 0 else W1 ! (j * 16 + d))"
    if "d < 16" "j < 10" for j d
    using n3 [rule_format, OF that(1), of j] n2 [rule_format, OF that(1), of j] that(2)
    by (simp add: s4_def s3_def s2_def s1_def)
  have "stage_weight s' i r c = 0" if "i < 10" "5 \<le> i" "r < 4" "c < 4" for i r c
  proof -
    have "i \<noteq> 4" using that(2) by simp
    then have "W3 ! (i * 16 + (r * 4 + c)) = 0"
      using W [OF stage_weight_entry(1) [OF that(3,4)] that(1)] that(2)
      by (simp only: simp_thms if_False if_True)
    then show ?thesis by (simp add: stage_weight_def s'_def)
  qed
  moreover have "stage_weight s' 4 r r = weight_of (terminal (optimization_param s)) r"
    if "r < 4" for r
  proof -
    have "(r * 4 + r) div 5 = r" by simp
    then show ?thesis
      using W [OF stage_weight_entry(1) [OF that that], of 4] stage_weight_entry(2) [OF that that]
      by (simp add: stage_weight_def s'_def)
  qed
  moreover have "terminal_weight s' r c = 0" if "r < 4" "c < 4" for r c
  proof -
    have "r = 0 \<or> r = 1 \<or> r = 2 \<or> r = 3" using that(1) by arith
    then have d: "[0, 0, 0, 0::real] ! r = 0" by (elim disjE) simp_all
    have "r \<noteq> c \<Longrightarrow> var_WN s ! (r * 4 + c) = 0"
      using assms(4) that by (simp add: terminal_weight_def)
    then have "WN' ! (r * 4 + c) = 0"
      unfolding WN'_def terminal_weight_entry [OF that l(6)] using d by auto
    then show ?thesis by (simp add: terminal_weight_def s'_def s4_def)
  qed
  ultimately show ?thesis using run by blast
qed

subsection \<open>When the operations throw\<close>

lemma thrown_apply_nominal_weights:
  "thrown (apply_nominal_weights N cfg start e s) \<noteq> None \<longleftrightarrow> start > min e N"
  by (simp add: apply_nominal_weights_def Let_def split: option.split)

lemma thrown_zero_nominal_weights:
  "thrown (zero_nominal_weights N start e s) \<noteq> None \<longleftrightarrow> start > min e N"
  by (simp add: zero_nominal_weights_def Let_def min.commute split: option.split)

lemma thrown_apply_terminal_weights:
  "thrown (apply_terminal_weights N idx s) \<noteq> None \<longleftrightarrow> idx \<ge> N"
proof (cases "idx \<ge> N")
  case True
  then show ?thesis by (simp add: apply_terminal_weights_def)
next
  case False
  then have lt: "idx < N" by simp
  then have u: "unat (idx + 1) = unat idx + 1" by (rule unat_succ)
  have "unat idx < unat N" using lt by (simp only: word_less_nat_alt)
  then have "idx \<le> idx + 1" "idx \<le> N" using u by (simp_all add: word_le_nat_alt)
  then have "\<not> idx > min (idx + 1) N" by (simp add: not_less)
  then show ?thesis
    using False thrown_apply_nominal_weights [of N "terminal (optimization_param s)" idx "idx + 1" s]
    by (simp add: apply_terminal_weights_def Let_def)
qed

lemma thrown_advance_problem:
  "thrown (advance_problem N NU count s) \<noteq> None \<longleftrightarrow> count \<ge> N"
  by (simp add: advance_problem_def split: option.split)

lemma thrown_set_reference:
  "thrown (set_reference to_angle N traj y_start traj_start count s) \<noteq> None \<longleftrightarrow>
     y_start + count > N \<or> traj_start + count > size_of traj"
  by (simp add: set_reference_def split: option.split)

lemma thrown_set_reference_no_overflow:
  assumes "unat y_start + unat count < 2 ^ 64" "unat traj_start + unat count < 2 ^ 64"
    and "length traj < 2 ^ 64"
  shows "thrown (set_reference to_angle N traj y_start traj_start count s) \<noteq> None \<longleftrightarrow>
     unat y_start + unat count > unat N \<or> unat traj_start + unat count > length traj"
  unfolding thrown_set_reference
  by (simp add: word_less_nat_alt unat_sum [OF assms(1)] unat_sum [OF assms(2)]
      unat_size_of [OF assms(3)])

lemma thrown_backfill_reference:
  fixes s :: "'h mpc"
  assumes "wf N NU s" "length (reference_trajectory s) < 2 ^ 63"
  shows "thrown (backfill_reference to_angle N count s) \<noteq> None \<longleftrightarrow> count \<ge> N"
proof (cases "count \<ge> N")
  case True
  then show ?thesis by (simp add: backfill_reference_def)
next
  case False
  then have "count < N" by simp
  from backfill_reference_result [OF assms(1) this assms(2), of to_angle]
  obtain s' where "backfill_reference to_angle N count s = Done s'" by blast
  then show ?thesis using False by simp
qed

lemma set_reference_overflow:
  assumes "length (var_y s) < 2 ^ 63"
  shows "set_reference to_angle 10 [pt] (- 1) 0 1 s = Undefined"
proof -
  have "store (var_y s) (- 4) v = None" for v
    using assms by (simp add: store_def)
  then have "set_reference_body to_angle [pt] (- 1) 0 0 (var_y s) = None"
    by (simp add: set_reference_body_def load_def field_index_defs)
  then have "set_reference_loop to_angle [pt] (- 1) 0 0 1 (var_y s) = None"
    by (subst set_reference_loop.simps) simp
  then show ?thesis by (simp add: set_reference_def size_of_def)
qed

subsection \<open>Writes to the weight matrices\<close>

lemma mod_16_unat:
  fixes a :: Index
  shows "unat (a * 16 + c) mod 16 = unat c mod 16"
proof -
  have d: "(16::nat) dvd 2 ^ 64" by simp
  have "unat (a * 16 + c) mod 16 = ((unat (a * 16) + unat c) mod 2 ^ 64) mod 16"
    by (simp add: unat_word_ariths)
  also have "\<dots> = (unat (a * 16) + unat c) mod 16" using d by (rule mod_mod_cancel)
  also have "unat (a * 16) = (unat a * 16) mod 2 ^ 64" by (simp add: unat_word_ariths)
  also have "((unat a * 16) mod 2 ^ 64 + unat c) mod 16 = ((unat a * 16) mod 2 ^ 64 mod 16 + unat c) mod 16"
    by (simp add: mod_add_left_eq)
  also have "(unat a * 16) mod 2 ^ 64 mod 16 = (unat a * 16) mod 16" using d by (rule mod_mod_cancel)
  finally show ?thesis by simp
qed

lemma diagonal_index:
  fixes i :: Index
  shows "unat (i * NY2 + (IDY_X * NY) + IDY_X) mod 16 mod 5 = 0"
    and "unat (i * NY2 + (IDY_Y * NY) + IDY_Y) mod 16 mod 5 = 0"
    and "unat (i * NY2 + (IDY_HEADING * NY) + IDY_HEADING) mod 16 mod 5 = 0"
    and "unat (i * NY2 + (IDY_VEL_LONG * NY) + IDY_VEL_LONG) mod 16 mod 5 = 0"
proof -
  have e: "i * NY2 + (IDY_X * NY) + IDY_X = i * 16 + 0"
    "i * NY2 + (IDY_Y * NY) + IDY_Y = i * 16 + 5"
    "i * NY2 + (IDY_HEADING * NY) + IDY_HEADING = i * 16 + 10"
    "i * NY2 + (IDY_VEL_LONG * NY) + IDY_VEL_LONG = i * 16 + 15"
    by (simp_all add: field_index_defs)
  show "unat (i * NY2 + (IDY_X * NY) + IDY_X) mod 16 mod 5 = 0"
    unfolding e mod_16_unat by simp
  show "unat (i * NY2 + (IDY_Y * NY) + IDY_Y) mod 16 mod 5 = 0"
    unfolding e mod_16_unat by simp
  show "unat (i * NY2 + (IDY_HEADING * NY) + IDY_HEADING) mod 16 mod 5 = 0"
    unfolding e mod_16_unat by simp
  show "unat (i * NY2 + (IDY_VEL_LONG * NY) + IDY_VEL_LONG) mod 16 mod 5 = 0"
    unfolding e mod_16_unat by simp
qed

lemma store_Some: "store a i v = Some a' \<Longrightarrow> a' = a[unat i := v]"
  by (simp add: store_def split: if_splits)

lemma store_elsewhere: "store a i v = Some a' \<Longrightarrow> k \<noteq> unat i \<Longrightarrow> a' ! k = a ! k"
  by (auto dest: store_Some)

lemma apply_nominal_body_off_diagonal:
  assumes "apply_nominal_body cfg i W = Some W'" "k mod 16 mod 5 \<noteq> 0"
  shows "W' ! k = W ! k"
proof -
  note d = diagonal_index [of i]
  have n: "k \<noteq> unat (i * NY2 + (IDY_X * NY) + IDY_X)"
    "k \<noteq> unat (i * NY2 + (IDY_Y * NY) + IDY_Y)"
    "k \<noteq> unat (i * NY2 + (IDY_HEADING * NY) + IDY_HEADING)"
    "k \<noteq> unat (i * NY2 + (IDY_VEL_LONG * NY) + IDY_VEL_LONG)"
    using assms(2) d by auto
  from assms(1) obtain W1 W2 W3 where
    "store W (i * NY2 + (IDY_X * NY) + IDY_X) (pose cfg) = Some W1"
    "store W1 (i * NY2 + (IDY_Y * NY) + IDY_Y) (pose cfg) = Some W2"
    "store W2 (i * NY2 + (IDY_HEADING * NY) + IDY_HEADING) (heading cfg) = Some W3"
    "store W3 (i * NY2 + (IDY_VEL_LONG * NY) + IDY_VEL_LONG) (longitudinal_velocity cfg) = Some W'"
    unfolding apply_nominal_body_def Let_def by (auto simp: bind_eq_Some_conv)
  then show ?thesis using n by (simp add: store_elsewhere)
qed

lemma apply_nominal_loop_off_diagonal:
  assumes "apply_nominal_loop cfg i e W = Some W'" "k mod 16 mod 5 \<noteq> 0"
  shows "W' ! k = W ! k"
  using assms
proof (induction cfg i e W rule: apply_nominal_loop.induct)
  case (1 cfg i e W)
  show ?case
  proof (cases "i < e")
    case False
    then show ?thesis using "1.prems" by (simp add: apply_nominal_loop_stop)
  next
    case True
    then obtain W1 where b: "apply_nominal_body cfg i W = Some W1"
      and r: "apply_nominal_loop cfg (i + 1) e W1 = Some W'"
      using "1.prems"(1) by (subst (asm) apply_nominal_loop.simps) (auto split: option.splits)
    have "W' ! k = W1 ! k" using "1.IH" [OF True b r "1.prems"(2)] .
    also have "\<dots> = W ! k" using b "1.prems"(2) by (rule apply_nominal_body_off_diagonal)
    finally show ?thesis .
  qed
qed

lemma fill_loop_zero_or_old: "fill_loop n p v a ! k = a ! k \<or> fill_loop n p v a ! k = v"
proof (induction n arbitrary: p a)
  case 0
  then show ?case by simp
next
  case (Suc n)
  have "a[p := v] ! k = a ! k \<or> a[p := v] ! k = v"
    by (cases "k = p"; cases "p < length a") (simp_all add: list_update_beyond)
  then show ?case using Suc [of "Suc p" "a[p := v]"] by auto
qed


lemma state_after_and_then:
  assumes "state_after (and_then r f) = Some s'"
  shows "(\<exists>e. r = Raised e s') \<or> (\<exists>s1. r = Done s1 \<and> state_after (f s1) = Some s')"
  using assms by (cases r) simp_all

lemma diagonal_writes_refl: "diagonal_writes s s"
  by (simp add: diagonal_writes_def)

lemma diagonal_writes_trans:
  "diagonal_writes s s1 \<Longrightarrow> diagonal_writes s1 s2 \<Longrightarrow> diagonal_writes s s2"
  unfolding diagonal_writes_def by metis

lemma diagonal_writes_same_weights:
  "var_W s' = var_W s \<Longrightarrow> var_WN s' = var_WN s \<Longrightarrow> diagonal_writes s s'"
  by (simp add: diagonal_writes_def)

lemma diagonal_writes_and_then:
  assumes "state_after (and_then (f s) g) = Some s'"
    and "\<And>t. state_after (f s) = Some t \<Longrightarrow> diagonal_writes s t"
    and "\<And>s1 t. f s = Done s1 \<Longrightarrow> state_after (g s1) = Some t \<Longrightarrow> diagonal_writes s1 t"
  shows "diagonal_writes s s'"
proof -
  from state_after_and_then [OF assms(1)]
  consider e where "f s = Raised e s'" | s1 where "f s = Done s1" "state_after (g s1) = Some s'"
    by blast
  then show ?thesis
  proof cases
    case 1
    then show ?thesis using assms(2) [of s'] by simp
  next
    case 2
    then have "diagonal_writes s s1" "diagonal_writes s1 s'"
      using assms(2) [of s1] assms(3) [of s1 s'] by simp_all
    then show ?thesis by (rule diagonal_writes_trans)
  qed
qed

lemma apply_nominal_weights_diagonal:
  assumes "state_after (apply_nominal_weights N cfg start e s) = Some s'"
  shows "diagonal_writes s s'"
proof (cases "start > min e N")
  case True
  then have "s' = s" using assms by (simp add: apply_nominal_weights_def)
  then show ?thesis by (simp add: diagonal_writes_refl)
next
  case False
  then obtain W' where l: "apply_nominal_loop cfg start (min e N) (var_W s) = Some W'"
    and s': "s' = s\<lparr>var_W := W'\<rparr>"
    using assms by (auto simp: apply_nominal_weights_def Let_def split: option.splits)
  show ?thesis
    unfolding diagonal_writes_def s'
    using apply_nominal_loop_off_diagonal [OF l] by simp
qed

lemma zero_nominal_weights_diagonal:
  assumes "state_after (zero_nominal_weights N start e s) = Some s'"
  shows "diagonal_writes s s'"
proof (cases "start > min N e")
  case True
  then have "s' = s" using assms by (simp add: zero_nominal_weights_def)
  then show ?thesis by (simp add: diagonal_writes_refl)
next
  case False
  then obtain W' where
    l: "std_fill (var_W s) (unat (start * NY2)) (unat (min N e * NY2)) 0 = Some W'"
    and s': "s' = s\<lparr>var_W := W'\<rparr>"
    using assms by (auto simp: zero_nominal_weights_def Let_def split: option.splits)
  have "W' ! k = var_W s ! k \<or> W' ! k = 0" for k
    using l fill_loop_zero_or_old [of _ _ 0 "var_W s" k]
    by (auto simp: std_fill_def split: if_splits)
  then show ?thesis unfolding diagonal_writes_def s' by simp
qed

lemma apply_terminal_weights_diagonal:
  assumes "state_after (apply_terminal_weights N idx s) = Some s'"
  shows "diagonal_writes s s'"
proof (cases "idx \<ge> N")
  case True
  then have "s' = s" using assms by (simp add: apply_terminal_weights_def)
  then show ?thesis by (simp add: diagonal_writes_refl)
next
  case False
  then show ?thesis
    using assms apply_nominal_weights_diagonal
    by (simp add: apply_terminal_weights_def Let_def)
qed

lemma terminal_store_diagonal:
  assumes "Option.bind (Option.bind (Option.bind
             (store WN ((IDYN_X * NYN) + IDYN_X) a0)
             (\<lambda>WN. store WN ((IDYN_Y * NYN) + IDYN_Y) a1))
             (\<lambda>WN. store WN ((IDYN_HEADING * NYN) + IDYN_HEADING) a2))
             (\<lambda>WN. store WN ((IDYN_VEL_LONG * NYN) + IDYN_VEL_LONG) a3) = Some WN'"
    and "k mod 5 \<noteq> 0"
  shows "WN' ! k = WN ! k"
proof -
  have n: "k \<noteq> unat ((IDYN_X * NYN) + IDYN_X)" "k \<noteq> unat ((IDYN_Y * NYN) + IDYN_Y)"
    "k \<noteq> unat ((IDYN_HEADING * NYN) + IDYN_HEADING)"
    "k \<noteq> unat ((IDYN_VEL_LONG * NYN) + IDYN_VEL_LONG)"
    using assms(2) by (auto simp: field_index_defs)
  from assms(1) obtain W1 W2 W3 where
    "store WN ((IDYN_X * NYN) + IDYN_X) a0 = Some W1"
    "store W1 ((IDYN_Y * NYN) + IDYN_Y) a1 = Some W2"
    "store W2 ((IDYN_HEADING * NYN) + IDYN_HEADING) a2 = Some W3"
    "store W3 ((IDYN_VEL_LONG * NYN) + IDYN_VEL_LONG) a3 = Some WN'"
    by (auto simp: bind_eq_Some_conv)
  then show ?thesis using n by (simp add: store_elsewhere)
qed

lemma zero_terminal_weights_diagonal:
  assumes "state_after (zero_terminal_weights s) = Some s'"
  shows "diagonal_writes s s'"
proof -
  from assms obtain WN' where
    b: "Option.bind (Option.bind (Option.bind
             (store (var_WN s) ((IDYN_X * NYN) + IDYN_X) 0)
             (\<lambda>WN. store WN ((IDYN_Y * NYN) + IDYN_Y) 0))
             (\<lambda>WN. store WN ((IDYN_HEADING * NYN) + IDYN_HEADING) 0))
             (\<lambda>WN. store WN ((IDYN_VEL_LONG * NYN) + IDYN_VEL_LONG) 0) = Some WN'"
    and s': "s' = s\<lparr>var_WN := WN'\<rparr>"
    unfolding zero_terminal_weights_def by (auto split: option.splits)
  show ?thesis
    unfolding diagonal_writes_def s' using terminal_store_diagonal [OF b] by simp
qed

lemma set_terminal_weights_diagonal:
  assumes "state_after (set_terminal_weights cfg s) = Some s'"
  shows "diagonal_writes s s'"
proof -
  from assms obtain WN' where
    b: "Option.bind (Option.bind (Option.bind
             (store (var_WN s) ((IDYN_X * NYN) + IDYN_X) (pose cfg))
             (\<lambda>WN. store WN ((IDYN_Y * NYN) + IDYN_Y) (pose cfg)))
             (\<lambda>WN. store WN ((IDYN_HEADING * NYN) + IDYN_HEADING) (heading cfg)))
             (\<lambda>WN. store WN ((IDYN_VEL_LONG * NYN) + IDYN_VEL_LONG) (longitudinal_velocity cfg))
           = Some WN'"
    and s': "s' = s\<lparr>var_WN := WN'\<rparr>"
    unfolding set_terminal_weights_def by (auto split: option.splits)
  show ?thesis
    unfolding diagonal_writes_def s' using terminal_store_diagonal [OF b] by simp
qed

lemma set_reference_diagonal:
  assumes "state_after (set_reference to_angle N traj y_start traj_start count s) = Some s'"
  shows "diagonal_writes s s'"
  using assms
  by (auto simp: set_reference_def diagonal_writes_def split: if_splits option.splits)

lemma set_terminal_reference_diagonal:
  assumes "state_after (set_terminal_reference to_angle pt s) = Some s'"
  shows "diagonal_writes s s'"
  using assms
  by (auto simp: set_terminal_reference_def diagonal_writes_def split: option.splits)

lemma advance_problem_diagonal:
  assumes "state_after (advance_problem N NU count s) = Some s'"
  shows "diagonal_writes s s'"
  using assms
  by (auto simp: advance_problem_def diagonal_writes_def split: if_splits option.splits)

lemma diagonal_writes_seq:
  assumes "\<forall>t. state_after r = Some t \<longrightarrow> diagonal_writes s t"
    and "\<And>s1. r = Done s1 \<Longrightarrow> \<forall>t. state_after (g s1) = Some t \<longrightarrow> diagonal_writes s1 t"
  shows "\<forall>t. state_after (and_then r g) = Some t \<longrightarrow> diagonal_writes s t"
proof (intro allI impI)
  fix t assume "state_after (and_then r g) = Some t"
  from state_after_and_then [OF this]
  consider e where "r = Raised e t" | s1 where "r = Done s1" "state_after (g s1) = Some t"
    by blast
  then show "diagonal_writes s t"
  proof cases
    case 1
    then show ?thesis using assms(1) by simp
  next
    case 2
    then have "diagonal_writes s s1" "diagonal_writes s1 t"
      using assms(1) assms(2) [of s1] by simp_all
    then show ?thesis by (rule diagonal_writes_trans)
  qed
qed

lemma diagonal_writes_seq_forget:
  assumes "\<forall>t. state_after r = Some t \<longrightarrow> diagonal_writes s t"
    and "\<And>s1. r = Done s1 \<Longrightarrow>
           \<forall>t. state_after (forget (g s1)) = Some t \<longrightarrow> diagonal_writes s1 t"
  shows "\<forall>t. state_after (forget (and_then r g)) = Some t \<longrightarrow> diagonal_writes s t"
proof (intro allI impI)
  fix t assume a: "state_after (forget (and_then r g)) = Some t"
  show "diagonal_writes s t"
  proof (cases r)
    case (Done s1)
    then have "diagonal_writes s s1" "diagonal_writes s1 t"
      using assms(1) assms(2) [of s1] a by simp_all
    then show ?thesis by (rule diagonal_writes_trans)
  next
    case (Raised e s1)
    then show ?thesis using assms(1) a by simp
  next
    case Undefined
    then show ?thesis using a by simp
  qed
qed

lemma apply_weights_diagonal:
  "\<forall>t. state_after (apply_weights N cfg s) = Some t \<longrightarrow> diagonal_writes s t"
  unfolding apply_weights_def
  by (intro diagonal_writes_seq allI impI apply_nominal_weights_diagonal
      set_terminal_weights_diagonal)

lemma backfill_reference_diagonal:
  "\<forall>t. state_after (backfill_reference to_angle N count s) = Some t \<longrightarrow> diagonal_writes s t"
proof (cases "N \<le> count")
  case True
  then show ?thesis by (simp add: backfill_reference_def diagonal_writes_refl)
next
  case False
  have tail: "\<forall>t. state_after
      (if c then (case load (reference_trajectory s1) k of
                None \<Rightarrow> Undefined
              | Some pt \<Rightarrow> set_terminal_reference to_angle pt s1)
        else zero_terminal_weights s1) = Some t \<longrightarrow> diagonal_writes s1 t" for c k s1
    by (auto split: option.splits
        intro: set_terminal_reference_diagonal zero_terminal_weights_diagonal)
  have mid: "\<forall>t. state_after
      (if c then and_then (zero_nominal_weights N a N s1) (apply_terminal_weights N b)
       else Done s1) = Some t \<longrightarrow> diagonal_writes s1 t" for c a b s1
  proof (cases c)
    case True
    have "\<forall>t. state_after (and_then (zero_nominal_weights N a N s1)
                 (apply_terminal_weights N b)) = Some t \<longrightarrow> diagonal_writes s1 t"
      by (intro diagonal_writes_seq allI impI zero_nominal_weights_diagonal
          apply_terminal_weights_diagonal)
    then show ?thesis using True by simp
  next
    case False
    then show ?thesis by (simp add: diagonal_writes_refl)
  qed
  show ?thesis
    unfolding backfill_reference_def Let_def using False
    by (simp only: if_False)
       (intro diagonal_writes_seq allI impI set_reference_diagonal mid [rule_format]
          tail [rule_format])
qed

lemma ensure_reference_consistency_diagonal:
  "\<forall>t. state_after (forget (ensure_reference_consistency N horizon s)) = Some t
       \<longrightarrow> diagonal_writes s t"
  by (auto simp: ensure_reference_consistency_def accumulated_err_def Let_def
      diagonal_writes_def split: option.splits prod.splits outcome.splits)

lemma handle_new_trajectory_diagonal:
  "\<forall>t. state_after (forget (handle_new_trajectory sample to_angle N trajectory s)) = Some t
       \<longrightarrow> diagonal_writes s t"
proof -
  define s0 where "s0 = (case m_interpolated_trajectory s of
                 Some buf \<Rightarrow> s\<lparr>m_interpolated_trajectory := Some (sample trajectory buf)\<rparr>
               | None \<Rightarrow> s)"
  have w: "var_W s0 = var_W s" "var_WN s0 = var_WN s"
    by (simp_all add: s0_def split: option.splits)
  then have d0: "diagonal_writes s s0" by (rule diagonal_writes_same_weights)
  have zero: "\<forall>t. state_after (if c then zero_nominal_weights N a N s1 else Done s1) = Some t
       \<longrightarrow> diagonal_writes s1 t" for c a s1
    by (auto intro: zero_nominal_weights_diagonal diagonal_writes_refl)
  have tstep: "\<forall>t. state_after
       (if c then and_then (zero_terminal_weights s1) (apply_terminal_weights N b)
        else (case load traj k of
                None \<Rightarrow> Undefined
              | Some pt \<Rightarrow> set_terminal_reference to_angle pt s1)) = Some t
       \<longrightarrow> diagonal_writes s1 t" for c b traj k s1
  proof (cases c)
    case True
    have "\<forall>t. state_after (and_then (zero_terminal_weights s1) (apply_terminal_weights N b))
            = Some t \<longrightarrow> diagonal_writes s1 t"
      by (intro diagonal_writes_seq allI impI zero_terminal_weights_diagonal
          apply_terminal_weights_diagonal)
    then show ?thesis using True by simp
  next
    case False
    then show ?thesis
      by (auto split: option.splits intro: set_terminal_reference_diagonal)
  qed
  have last: "\<forall>t. state_after (forget (Done (traj, s1\<lparr>m_last_reference_index := 0\<rparr>))) = Some t
       \<longrightarrow> diagonal_writes s1 t" for traj :: "'a Trajectory" and s1 :: "'a mpc"
    by (simp add: diagonal_writes_same_weights)
  have "\<forall>t. state_after (forget (handle_new_trajectory sample to_angle N trajectory s)) = Some t
       \<longrightarrow> diagonal_writes s0 t"
    unfolding handle_new_trajectory_def Let_def s0_def [symmetric]
    by (intro diagonal_writes_seq_forget diagonal_writes_seq allI impI set_reference_diagonal
        apply_nominal_weights_diagonal zero [rule_format] tstep [rule_format]
        last [rule_format])
  then show ?thesis using d0 by (blast intro: diagonal_writes_trans)
qed

lemma perform_diagonal:
  "\<forall>t. state_after (perform sample to_angle N NU op s) = Some t \<longrightarrow> diagonal_writes s t"
proof (cases op)
  case (Apply_nominal_weights cfg start e)
  then show ?thesis by (auto intro: apply_nominal_weights_diagonal)
next
  case (Zero_nominal_weights start e)
  then show ?thesis by (auto intro: zero_nominal_weights_diagonal)
next
  case (Set_terminal_weights cfg)
  then show ?thesis by (auto intro: set_terminal_weights_diagonal)
next
  case Zero_terminal_weights
  then show ?thesis by (auto intro: zero_terminal_weights_diagonal)
next
  case (Apply_terminal_weights idx)
  then show ?thesis by (auto intro: apply_terminal_weights_diagonal)
next
  case (Apply_weights cfg)
  then show ?thesis using apply_weights_diagonal by simp
next
  case (Set_reference traj y_start traj_start count)
  then show ?thesis by (auto intro: set_reference_diagonal)
next
  case (Set_terminal_reference pt)
  then show ?thesis by (auto intro: set_terminal_reference_diagonal)
next
  case (Handle_new_trajectory trajectory)
  then show ?thesis using handle_new_trajectory_diagonal by simp
next
  case (Advance_problem count)
  then show ?thesis by (auto intro: advance_problem_diagonal)
next
  case (Backfill_reference count)
  then show ?thesis using backfill_reference_diagonal by simp
next
  case (Ensure_reference_consistency horizon)
  then show ?thesis using ensure_reference_consistency_diagonal by simp
qed

lemma off_diagonal_zero_kept:
  assumes "off_diagonal_zero N s" "diagonal_writes s s'"
  shows "off_diagonal_zero N s'"
proof -
  have m: "(i * 16 + (r * 4 + c)) mod 16 mod 5 \<noteq> 0" "(r * 4 + c) mod 5 \<noteq> 0"
    if "r < 4" "c < 4" "r \<noteq> c" for i r c :: nat
  proof -
    have "(i * 16 + (r * 4 + c)) mod 16 = r * 4 + c" using that(1,2) by simp
    then show "(i * 16 + (r * 4 + c)) mod 16 mod 5 \<noteq> 0" "(r * 4 + c) mod 5 \<noteq> 0"
      using stage_weight_entry(2) [OF that(1,2)] that(3) by simp_all
  qed
  have "stage_weight s' i r c = 0" if "i < unat N" "r < 4" "c < 4" "r \<noteq> c" for i r c
  proof -
    have "stage_weight s i r c = 0" using assms(1) that by (simp add: off_diagonal_zero_def)
    moreover have "var_W s' ! (i * 16 + (r * 4 + c)) = var_W s ! (i * 16 + (r * 4 + c)) \<or>
                   var_W s' ! (i * 16 + (r * 4 + c)) = 0"
      using assms(2) m(1) [OF that(2,3,4), of i] unfolding diagonal_writes_def by blast
    ultimately show ?thesis by (auto simp: stage_weight_def)
  qed
  moreover have "terminal_weight s' r c = 0" if "r < 4" "c < 4" "r \<noteq> c" for r c
  proof -
    have "terminal_weight s r c = 0" using assms(1) that by (simp add: off_diagonal_zero_def)
    moreover have "var_WN s' ! (r * 4 + c) = var_WN s ! (r * 4 + c) \<or>
                   var_WN s' ! (r * 4 + c) = 0"
      using assms(2) m(2) [OF that] unfolding diagonal_writes_def by blast
    ultimately show ?thesis by (auto simp: terminal_weight_def)
  qed
  ultimately show ?thesis by (simp add: off_diagonal_zero_def)
qed

subsection \<open>Heading consistency\<close>

lemma pi_ge_3: "3 \<le> pi"
proof -
  have "sin (pi / 6) \<le> pi / 6" by (rule sin_x_le_x) simp
  then show ?thesis by (simp add: sin_30)
qed

lemma sum_upto_8:
  fixes f :: "nat \<Rightarrow> real"
  shows "(\<Sum>m<8. f m) = f 0 + f 1 + f 2 + f 3 + f 4 + f 5 + f 6 + f 7"
  by (simp add: eval_nat_numeral)

lemma cos_coeff_values:
  "cos_coeff 0 = 1" "cos_coeff 1 = 0" "cos_coeff 2 = - 1 / 2" "cos_coeff 3 = 0"
  "cos_coeff 4 = 1 / 24" "cos_coeff 5 = 0" "cos_coeff 6 = - 1 / 720" "cos_coeff 7 = 0"
  by (simp_all add: cos_coeff_def fact_numeral)

lemma cos_1575_negative: "cos (63 / 40 :: real) < 0"
proof -
  obtain t :: real where
    e: "cos (63 / 40) = (\<Sum>m<8. cos_coeff m * (63 / 40) ^ m)
          + (cos (t + 1 / 2 * real (8::nat) * pi) / fact 8) * (63 / 40) ^ 8"
    using Maclaurin_cos_expansion2 [of "63 / 40" 8] by auto
  have "cos (t + 1 / 2 * real (8::nat) * pi) \<le> 1" by (rule cos_le_one)
  then have "(cos (t + 1 / 2 * real (8::nat) * pi) / fact 8) * (63 / 40 :: real) ^ 8
               \<le> (1 / fact 8) * (63 / 40) ^ 8"
    by (intro mult_right_mono divide_right_mono) simp_all
  moreover have "(\<Sum>m<8. cos_coeff m * (63 / 40 :: real) ^ m) + (1 / fact 8) * (63 / 40) ^ 8 < 0"
    unfolding sum_upto_8 cos_coeff_values by (simp add: fact_numeral power_divide)
  ultimately show ?thesis using e by linarith
qed

lemma pi_le_315: "pi \<le> 63 / 20"
proof (rule ccontr)
  assume "\<not> pi \<le> 63 / 20"
  then have "63 / 40 < pi / 2" by simp
  then have "0 < cos (63 / 40 :: real)" by (intro cos_gt_zero) simp_all
  then show False using cos_1575_negative by simp
qed


lemma atan2_sin_cos:
  assumes "- (pi / 2) < x" "x < pi / 2"
  shows "atan2 (sin x) (cos x) = x"
proof -
  have "0 < cos x" using assms by (rule cos_gt_zero_pi)
  moreover have "arctan (sin x / cos x) = x"
    using arctan_tan [OF assms] by (simp add: tan_def)
  ultimately show ?thesis by (simp add: atan2_def)
qed

lemma fn_first:
  assumes "\<bar>last_angle + 3\<bar> < 1"
  shows "fn (- 3) (last_angle, err) = (- 3, - 3, err)"
proof -
  have "- (pi / 2) < - 3 - last_angle" "- 3 - last_angle < pi / 2"
    using assms pi_ge_3 by linarith+
  then have "atan2 (sin (- 3 - last_angle)) (cos (- 3 - last_angle)) = - 3 - last_angle"
    by (rule atan2_sin_cos)
  then show ?thesis by (simp add: fn_def Let_def)
qed

lemma fn_second: "fn 3 (- 3, err) = (3 - 2 * pi, 3 - 2 * pi, err + 2 * pi)"
proof -
  have "sin (6 - 2 * pi + 2 * pi) = sin (6 - 2 * pi)" "cos (6 - 2 * pi + 2 * pi) = cos (6 - 2 * pi)"
    by (rule sin_periodic, rule cos_periodic)
  then have p: "sin 6 = sin (6 - 2 * pi)" "cos 6 = cos (6 - 2 * pi)" by simp_all
  have "- (pi / 2) < 6 - 2 * pi" "6 - 2 * pi < pi / 2"
    using pi_ge_3 pi_le_315 by linarith+
  then have "atan2 (sin (6 - 2 * pi)) (cos (6 - 2 * pi)) = 6 - 2 * pi"
    by (rule atan2_sin_cos)
  then have "atan2 (sin 6) (cos 6) = 6 - 2 * pi" by (simp only: p)
  then show ?thesis using pi_ge_3 by (simp add: fn_def Let_def)
qed

lemma fn_err_grows: "snd st \<le> snd (snd (fn ref st))"
  by (simp add: fn_def Let_def)

lemma heading_index:
  fixes i :: Index
  assumes "unat i * 4 + 3 < 2 ^ 64"
  shows "unat (NY * i + IDY_HEADING) = unat i * 4 + 2"
proof -
  have e: "NY * i + IDY_HEADING = i * 4 + 2" by (simp add: field_index_defs)
  show ?thesis unfolding e using assms unat_affine [of i 4 2] by simp
qed

lemma ensure_loop_stop: "\<not> i < h \<Longrightarrow> ensure_loop i h st = Some st"
  by (simp add: ensure_loop.simps)

lemma ensure_loop_step:
  assumes "i < h" "unat i * 4 + 4 \<le> length y" "length y < 2 ^ 64"
  shows "ensure_loop i h (y, st) =
           ensure_loop (i + 1) h (y[unat i * 4 + 2 := fst (fn (y ! (unat i * 4 + 2)) st)],
                                  snd (fn (y ! (unat i * 4 + 2)) st))"
proof -
  have b: "unat i * 4 + 3 < 2 ^ 64" using assms(2,3) by simp
  show ?thesis
    using assms
    by (subst ensure_loop.simps) (simp add: Let_def load_def store_def heading_index [OF b])
qed

lemma ensure_loop_result:
  assumes "i \<le> h" "unat h * 4 \<le> length y" "length y < 2 ^ 64"
  shows "\<exists>y' la' err'. ensure_loop i h (y, la, err) = Some (y', la', err') \<and>
     length y' = length y \<and> err \<le> err' \<and> (\<forall>k < unat i * 4. y' ! k = y ! k)"
  using assms
proof (induction "unat h - unat i" arbitrary: i y la err)
  case 0
  then have "\<not> i < h" by (simp add: word_less_nat_alt)
  then have "ensure_loop i h (y, la, err) = Some (y, la, err)" by (rule ensure_loop_stop)
  then show ?case by simp
next
  case (Suc n)
  then have lt: "i < h" by (simp add: word_less_nat_alt)
  then have u: "unat (i + 1) = unat i + 1" by (rule unat_succ)
  have ui: "unat i < unat h" using lt by (simp add: word_less_nat_alt)
  then have b: "unat i * 4 + 4 \<le> length y" using Suc.prems(2) by simp
  define r where "r = fn (y ! (unat i * 4 + 2)) (la, err)"
  define y1 where "y1 = y[unat i * 4 + 2 := fst r]"
  have step: "ensure_loop i h (y, la, err) = ensure_loop (i + 1) h (y1, fst (snd r), snd (snd r))"
    unfolding y1_def r_def using ensure_loop_step [OF lt b Suc.prems(3), of "(la, err)"]
    by simp
  have l1: "length y1 = length y" by (simp add: y1_def)
  have "i + 1 \<le> h" using ui u by (simp add: word_le_nat_alt)
  moreover have "n = unat h - unat (i + 1)" using Suc.hyps(2) u by simp
  ultimately obtain y' la' err' where
    res: "ensure_loop (i + 1) h (y1, fst (snd r), snd (snd r)) = Some (y', la', err')"
    and len: "length y' = length y1" and e: "snd (snd r) \<le> err'"
    and nth: "\<forall>k < unat (i + 1) * 4. y' ! k = y1 ! k"
    using Suc.hyps(1) [of "i + 1" y1 "fst (snd r)" "snd (snd r)"] Suc.prems(2,3) l1 by auto
  have "err \<le> snd (snd r)" unfolding r_def using fn_err_grows [of "(la, err)"] by simp
  then have "err \<le> err'" using e by simp
  moreover have "y' ! k = y ! k" if "k < unat i * 4" for k
    using nth [rule_format, of k] that u by (simp add: y1_def)
  ultimately show ?case using step res len l1 by auto
qed

lemma heading_unwrap:
  fixes s :: "'h mpc"
  assumes "wf N NU s" "2 \<le> N" "2 \<le> horizon"
    and "stage_ref s 0 2 = - 3" "stage_ref s 1 2 = 3" "\<bar>var_x0 s ! 2 + 3\<bar> < 1"
  shows "\<exists>err s'. accumulated_err N horizon s = Done (err, s') \<and> 2 * pi \<le> err \<and>
     stage_ref s' 0 2 = - 3 \<and> stage_ref s' 1 2 = 3 - 2 * pi"
proof -
  note l = wf_lengths [OF assms(1)]
  define h where "h = min horizon N"
  have h2: "2 \<le> h" using assms(2,3) by (simp add: h_def)
  then have uh: "2 \<le> unat h" by (simp add: word_le_nat_alt)
  have "h \<le> N" by (simp add: h_def)
  then have hN: "unat h \<le> unat N" by (simp only: word_le_nat_alt)
  have ly: "unat h * 4 \<le> length (var_y s)" "length (var_y s) < 2 ^ 64"
    using hN l(3,8) by simp_all
  have y2: "var_y s ! 2 = - 3" and y6: "var_y s ! 6 = 3"
    using assms(4,5) by (simp_all add: stage_ref_def del: add_2_eq_Suc add_2_eq_Suc')
  define y1 where "y1 = (var_y s)[2 := - 3]"
  define y2 where "y2 = y1[6 := 3 - 2 * pi]"
  have lt0: "(0::Index) < h" "(1::Index) < h"
    using uh by (simp_all add: word_less_nat_alt)
  have i0: "unat (0::Index) * 4 + 2 = 2" "unat (1::Index) * 4 + 2 = 6" by simp_all
  have s0: "ensure_loop 0 h (var_y s, var_x0 s ! 2, 0) = ensure_loop 1 h (y1, - 3, 0)"
  proof -
    have "unat (0::Index) * 4 + 4 \<le> length (var_y s)" using ly uh by simp
    from ensure_loop_step [OF lt0(1) this ly(2), of "(var_x0 s ! 2, 0)"]
    show ?thesis unfolding i0 y2 fn_first [OF assms(6)] y1_def by simp
  qed
  have y16: "y1 ! 6 = 3" using y6 by (simp add: y1_def)
  have s1: "ensure_loop 1 h (y1, - 3, 0) = ensure_loop 2 h (y2, 3 - 2 * pi, 2 * pi)"
  proof -
    have "unat (1::Index) * 4 + 4 \<le> length y1" using ly uh by (simp add: y1_def)
    moreover have "length y1 < 2 ^ 64" using ly by (simp add: y1_def)
    ultimately show ?thesis
      using ensure_loop_step [OF lt0(2), of y1 "(- 3, 0)"]
      unfolding i0 y16 fn_second y2_def by simp
  qed
  have "unat h * 4 \<le> length y2" "length y2 < 2 ^ 64" using ly by (simp_all add: y2_def y1_def)
  from ensure_loop_result [OF h2 this, of "3 - 2 * pi" "2 * pi"]
  obtain y' la' err' where
    res: "ensure_loop 2 h (y2, 3 - 2 * pi, 2 * pi) = Some (y', la', err')"
    and e: "2 * pi \<le> err'" and nth: "\<forall>k < unat (2::Index) * 4. y' ! k = y2 ! k"
    by blast
  have len: "2 < length (var_y s)" "6 < length (var_y s)" using ly uh by simp_all
  have a: "y' ! 2 = - 3" using nth [rule_format, of 2] len by (simp add: y2_def y1_def)
  have b: "y' ! 6 = 3 - 2 * pi" using nth [rule_format, of 6] len by (simp add: y2_def y1_def)
  define r where "r = fn (var_yN s ! 2) (la', err')"
  define s' where "s' = s\<lparr>var_y := y', var_yN := (var_yN s)[2 := fst r]\<rparr>"
  have run: "accumulated_err N horizon s = Done (snd (snd r), s')"
    unfolding accumulated_err_def Let_def h_def [symmetric]
    using l(4,7) s0 s1 res
    by (simp add: load_def store_def field_index_defs r_def s'_def)
  have "err' \<le> snd (snd r)" unfolding r_def using fn_err_grows [of "(la', err')"] by simp
  then have "2 * pi \<le> snd (snd r)" using e by simp
  moreover have "stage_ref s' 0 2 = - 3" "stage_ref s' 1 2 = 3 - 2 * pi"
    using a b by (simp_all add: stage_ref_def s'_def del: add_2_eq_Suc add_2_eq_Suc')
  ultimately show ?thesis using run by blast
qed

subsection \<open>What set_reference copies\<close>

text \<open>With bounds that hold without overflow, \<^verbatim>\<open>set_reference\<close> returns normally and stage
  \<open>y_start + i\<close> of the reference holds the x, y and velocity of the trajectory point
  \<open>traj_start + i\<close> and \<open>to_angle\<close> of its heading, for every \<open>i < count\<close>.\<close>

lemma set_reference_copies:
  assumes "wf N NU s" "unat y_start + unat count \<le> unat N"
    and "unat traj_start + unat count \<le> length traj" "length traj < 2 ^ 64"
  shows "\<exists>s'. set_reference to_angle N traj y_start traj_start count s = Done s' \<and>
     (\<forall>i < unat count. \<forall>d<4.
        stage_ref s' (unat y_start + i) d = ref_of to_angle (traj ! (unat traj_start + i)) d)"
proof -
  from set_reference_result [OF assms, of to_angle]
  obtain y' where
    r: "set_reference to_angle N traj y_start traj_start count s = Done (s\<lparr>var_y := y'\<rparr>)"
    and n: "\<forall>j d. d < 4 \<longrightarrow> j < unat N \<longrightarrow>
        y' ! (j * 4 + d) =
          (if unat y_start \<le> j \<and> j < unat y_start + unat count
           then ref_of to_angle (traj ! (unat traj_start + (j - unat y_start))) d
           else var_y s ! (j * 4 + d))"
    by blast
  have "stage_ref (s\<lparr>var_y := y'\<rparr>) (unat y_start + i) d
          = ref_of to_angle (traj ! (unat traj_start + i)) d"
    if "i < unat count" "d < 4" for i d
    using n [rule_format, OF that(2), of "unat y_start + i"] that(1) assms(2)
    by (simp add: stage_ref_def)
  then show ?thesis using r by blast
qed

subsection \<open>The test buffers satisfy the invariant\<close>

lemma off_diagonal_zero_zero_weights:
  assumes "var_W s = replicate 160 0" "var_WN s = replicate 16 0"
  shows "off_diagonal_zero 10 s"
  unfolding off_diagonal_zero_def
proof (intro conjI allI impI)
  fix i r c :: nat assume "i < unat (10::Index)" "r < 4" "c < 4"
  then have "i * 16 + (r * 4 + c) < 160"
    using stage_in_buffer [of i 10 "r * 4 + c" 16] by simp
  then show "stage_weight s i r c = 0" by (simp add: stage_weight_def assms)
next
  fix r c :: nat assume "r < 4" "c < 4"
  then have "r * 4 + c < 16" by simp
  then show "terminal_weight s r c = 0" by (simp add: terminal_weight_def assms)
qed

lemma off_diagonal_zero_buffer10: "off_diagonal_zero 10 buffer10"
  by (rule off_diagonal_zero_zero_weights) (simp_all add: buffer10_def)

lemma off_diagonal_zero_ramp10: "off_diagonal_zero 10 ramp10"
  by (rule off_diagonal_zero_zero_weights) (simp_all add: ramp10_def buffer10_def)

section \<open>The claims\<close>

text \<open>
  C1. For every \<open>count < N\<close>, \<^verbatim>\<open>advance_problem(count)\<close> returns normally on a buffer of
  the declared sizes, and for every stage \<open>i < N - count\<close> the reference and the control of
  stage \<open>i\<close> are those stage \<open>i + count\<close> had before, and the state of stage \<open>i + 1\<close> is
  the one stage \<open>i + 1 + count\<close> had before.
\<close>

theorem advance_problem_shift:
  assumes "wf N NU s" "count < N"
  shows "\<exists>s'. advance_problem N NU count s = Done s' \<and>
     (\<forall>i < unat N - unat count.
        (\<forall>j<4. stage_ref s' i j = stage_ref s (i + unat count) j) \<and>
        (\<forall>j<unat NU. control NU s' i j = control NU s (i + unat count) j) \<and>
        (\<forall>j<4. state s' (i + 1) j = state s (i + 1 + unat count) j))"
  using assms by (rule advance_problem_shift_aux)

theorem advance_problem_shift_witness:
  "wf 10 2 ramp10 \<and> (3::Index) < 10 \<and>
   (\<exists>s'. advance_problem 10 2 3 ramp10 = Done s' \<and>
      stage_ref s' 0 0 = 12 \<and> control 2 s' 6 1 = 19 \<and> state s' 7 3 = 43)"
proof -
  have h: "(3::Index) < 10" by simp
  from advance_problem_shift [OF wf_ramp10 h]
  obtain s' where d: "advance_problem 10 2 3 ramp10 = Done s'"
    and a: "\<forall>i < unat (10::Index) - unat (3::Index).
        (\<forall>j<4. stage_ref s' i j = stage_ref ramp10 (i + unat (3::Index)) j) \<and>
        (\<forall>j<unat (2::Index). control 2 s' i j = control 2 ramp10 (i + unat (3::Index)) j) \<and>
        (\<forall>j<4. state s' (i + 1) j = state ramp10 (i + 1 + unat (3::Index)) j)"
    by blast
  have "stage_ref s' 0 0 = 12"
    using a [rule_format, of 0, THEN conjunct1, rule_format, of 0]
    by (simp add: stage_ref_def ramp10_def)
  moreover have "control 2 s' 6 1 = 19"
    using a [rule_format, of 6, THEN conjunct2, THEN conjunct1, rule_format, of 1]
    by (simp add: control_def ramp10_def)
  moreover have "state s' 7 3 = 43"
    using a [rule_format, of 6, THEN conjunct2, THEN conjunct2, rule_format, of 3]
    by (simp add: state_def ramp10_def)
  ultimately show ?thesis using wf_ramp10 h d by blast
qed

text \<open>
  C2. Claim: each operation raises exactly under its stated condition;
  \<^verbatim>\<open>set_reference\<close> raises iff \<open>y_start + count > N\<close> or \<open>traj_start + count > |traj|\<close>.
  The sums of the check are computed in \<^verbatim>\<open>Index\<close> and wrap: for \<open>y_start = 2^64 - 1\<close> and
  \<open>count = 1\<close> the sum is 0, the check passes, nothing is thrown and the loop writes
  outside the reference array. The theorem runs the call on the zero buffer of horizon 10
  with a trajectory of one point. Without overflow the conditions are exact (lemmas
  \<open>thrown_set_reference_no_overflow\<close>, \<open>thrown_apply_nominal_weights\<close>,
  \<open>thrown_zero_nominal_weights\<close>, \<open>thrown_apply_terminal_weights\<close>,
  \<open>thrown_advance_problem\<close>, \<open>thrown_backfill_reference\<close>).
\<close>

theorem set_reference_overflow_not_thrown:
  "unat (10 :: Index) < unat (- 1 :: Index) + unat (1 :: Index) \<and>
   set_reference id 10 [waypoint 0] (- 1) 0 1 buffer10 = Undefined \<and>
   thrown (set_reference id 10 [waypoint 0] (- 1) 0 1 buffer10) = None"
proof -
  have "length (var_y buffer10) < 2 ^ 63" by (simp add: buffer10_def)
  then have "set_reference id 10 [waypoint 0] (- 1) 0 1 buffer10 = Undefined"
    by (rule set_reference_overflow)
  then show ?thesis by (simp add: unsigned_minus_1_eq_mask mask_eq_exp_minus_1)
qed

text \<open>
  C3. Claim: with \<open>N = 10\<close> and exactly 2 points of the stored trajectory left beyond the
  tracked index (\<open>|traj| - curr_idx = 2\<close>), \<^verbatim>\<open>backfill_reference(5)\<close> fills two stages,
  zeroes the weights of the other three and puts the terminal profile on the stage before
  them. The code starts reading at \<open>curr_idx + (N - count)\<close>, which is then past the end:
  on the test trajectory of 12 points with the vehicle at point 10 the soft landing does not
  happen (no point is copied, the stages 5 to 9 are zeroed, stage 4 gets the profile).
\<close>

theorem backfill_reference_two_left_counterexample:
  "length (reference_trajectory (tracking10 10)) =
     unat (current_state_temporal_index (tracking10 10)) + 2 \<and>
   \<not> holds_after (soft_landing id 10 (tracking10 10))
         (backfill_reference id 10 5 (tracking10 10))"
proof -
  have a: "length (reference_trajectory (tracking10 10)) =
        unat (current_state_temporal_index (tracking10 10)) + 2"
    by (simp add: tracking10_def)
  have b: "length (reference_trajectory (tracking10 10)) < 2 ^ 63"
    by (simp add: tracking10_def)
  from backfill_reference_exhausted [OF wf_tracking10 a b, of id]
  obtain s' where run: "backfill_reference id 10 5 (tracking10 10) = Done s'"
    and w: "\<forall>i<10. 5 \<le> i \<longrightarrow> (\<forall>r<4. \<forall>c<4. stage_weight s' i r c = 0)"
    by blast
  have z: "stage_weight s' 6 2 2 = 0" using w by simp
  have t: "weight_of (terminal (optimization_param (tracking10 10))) 2 = 21"
    by (simp add: weight_of_def tracking10_def buffer10_def)
  have "\<not> soft_landing id 10 (tracking10 10) s'"
  proof
    assume "soft_landing id 10 (tracking10 10) s'"
    then have "\<forall>r<4. stage_weight s' 6 r r =
                 weight_of (terminal (optimization_param (tracking10 10))) r"
      unfolding soft_landing_def by blast
    then have "stage_weight s' 6 2 2 = weight_of (terminal (optimization_param (tracking10 10))) 2"
      by simp
    then show False using z t by simp
  qed
  then show ?thesis using a by (simp add: run)
qed

text \<open>
  C3, amended. With \<open>N = 10\<close> and exactly 2 points of the stored trajectory left from the
  index \<open>curr_idx + 5\<close> on, where the refill starts reading (\<open>|traj| = curr_idx + 5 + 2\<close>),
  \<^verbatim>\<open>backfill_reference(5)\<close> copies these two points into the reference stages 5 and 6,
  zeroes the weights of the stages 7 to 9 and puts the terminal profile on the diagonal of
  stage 6.
\<close>

theorem backfill_reference_soft_landing:
  fixes s :: "'h mpc"
  assumes "wf 10 NU s"
    and "length (reference_trajectory s) = unat (current_state_temporal_index s) + 5 + 2"
    and "length (reference_trajectory s) < 2 ^ 63"
  shows "\<exists>s'. backfill_reference to_angle 10 5 s = Done s' \<and>
     soft_landing to_angle (unat (current_state_temporal_index s) + 5) s s'"
  using assms by (rule backfill_reference_soft_landing_aux)

theorem backfill_reference_soft_landing_witness:
  "wf 10 2 (tracking10 5) \<and>
   length (reference_trajectory (tracking10 5)) =
     unat (current_state_temporal_index (tracking10 5)) + 5 + 2 \<and>
   length (reference_trajectory (tracking10 5)) < 2 ^ 63 \<and>
   (\<exists>s'. backfill_reference id 10 5 (tracking10 5) = Done s' \<and>
      soft_landing id 10 (tracking10 5) s' \<and>
      stage_ref s' 5 0 = 110 \<and> stage_ref s' 6 3 = 411 \<and> stage_weight s' 6 2 2 = 21)"
proof -
  have a: "length (reference_trajectory (tracking10 5)) =
        unat (current_state_temporal_index (tracking10 5)) + 5 + 2"
    by (simp add: tracking10_def)
  have b: "length (reference_trajectory (tracking10 5)) < 2 ^ 63"
    by (simp add: tracking10_def)
  have k: "unat (current_state_temporal_index (tracking10 5)) + 5 = 10"
    by (simp add: tracking10_def)
  from backfill_reference_soft_landing [OF wf_tracking10 a b, of id, unfolded k]
  obtain s' where run: "backfill_reference id 10 5 (tracking10 5) = Done s'"
    and sl: "soft_landing id 10 (tracking10 5) s'"
    by blast
  have r: "\<forall>d<4. stage_ref s' 5 d = ref_of id (reference_trajectory (tracking10 5) ! 10) d \<and>
            stage_ref s' 6 d = ref_of id (reference_trajectory (tracking10 5) ! (10 + 1)) d"
    and w: "\<forall>r<4. stage_weight s' 6 r r =
              weight_of (terminal (optimization_param (tracking10 5))) r"
    using sl unfolding soft_landing_def by blast+
  have "stage_ref s' 5 0 = 110"
    using r [rule_format, of 0] by (simp add: ref_of_def tracking10_def waypoint_def)
  moreover have "stage_ref s' 6 3 = 411"
    using r [rule_format, of 3] by (simp add: ref_of_def tracking10_def waypoint_def)
  moreover have "stage_weight s' 6 2 2 = 21"
    using w [rule_format, of 2] by (simp add: weight_of_def tracking10_def buffer10_def)
  ultimately show ?thesis using wf_tracking10 a b run sl by blast
qed

text \<open>
  C4. Claim: \<^verbatim>\<open>handle_new_trajectory\<close> with an empty trajectory and no resampler completes
  without raising. The code does not: \<^verbatim>\<open>traj.points.size() - 1U\<close> wraps to the largest
  index, and \<^verbatim>\<open>apply_terminal_weights\<close> throws \<^verbatim>\<open>std::logic_error\<close>. The theorem runs
  the function on the zero buffer of horizon 10.
\<close>

theorem handle_new_trajectory_empty_throws:
  "thrown (handle_new_trajectory (\<lambda>trajectory buf. trajectory) (\<lambda>h. h) 10 [] buffer10) =
     Some (logic_error ''Out of bounds terminal weight index'')"
proof -
  have b: "m_interpolated_trajectory buffer10 = None" by (simp add: buffer10_def)
  from handle_new_trajectory_empty [OF wf_buffer10 b, of "\<lambda>trajectory buf. trajectory" "\<lambda>h. h"]
  show ?thesis by auto
qed

text \<open>
  C5. With \<open>N = 10\<close>, no resampler and a trajectory of 5 points,
  \<^verbatim>\<open>handle_new_trajectory\<close> returns the trajectory and leaves every entry of the stage
  weights 5 to 9 zero, the terminal profile on the diagonal of stage 4, and the terminal
  weight zero. \<^verbatim>\<open>zero_terminal_weights\<close> clears the diagonal of the terminal weight; its
  other entries are zero by the invariant of the data model (section 3 of the
  specification: only the diagonal of a weight matrix is ever non-zero), which is the
  last hypothesis and which every operation preserves.
\<close>

theorem handle_new_trajectory_short:
  fixes s :: "'h mpc"
  assumes "wf 10 NU s" "m_interpolated_trajectory s = None" "length trajectory = 5"
    and "off_diagonal_zero 10 s"
  shows "\<exists>s'. handle_new_trajectory sample to_angle 10 trajectory s = Done (trajectory, s') \<and>
     (\<forall>i<10. 5 \<le> i \<longrightarrow> (\<forall>r<4. \<forall>c<4. stage_weight s' i r c = 0)) \<and>
     (\<forall>r<4. stage_weight s' 4 r r = weight_of (terminal (optimization_param s)) r) \<and>
     (\<forall>r<4. \<forall>c<4. terminal_weight s' r c = 0)"
proof -
  have "\<forall>r<4. \<forall>c<4. r \<noteq> c \<longrightarrow> terminal_weight s r c = 0"
    using assms(4) by (simp add: off_diagonal_zero_def)
  with assms(1-3) show ?thesis by (rule handle_new_trajectory_short_aux)
qed

theorem handle_new_trajectory_short_witness:
  "wf 10 2 ramp10 \<and> m_interpolated_trajectory ramp10 = None \<and>
   length (map waypoint [0..<5]) = 5 \<and>
   off_diagonal_zero 10 ramp10 \<and>
   (\<exists>s'. handle_new_trajectory (\<lambda>trajectory buf. trajectory) id 10 (map waypoint [0..<5]) ramp10
            = Done (map waypoint [0..<5], s') \<and>
      stage_weight s' 7 1 2 = 0 \<and> stage_weight s' 9 3 3 = 0 \<and>
      stage_weight s' 4 0 0 = 20 \<and> stage_weight s' 4 2 2 = 21 \<and>
      terminal_weight s' 3 3 = 0 \<and> terminal_weight s' 0 1 = 0)"
proof -
  have a: "m_interpolated_trajectory ramp10 = None" by (simp add: ramp10_def buffer10_def)
  have b: "length (map waypoint [0..<5]) = 5" by simp
  note c = off_diagonal_zero_ramp10
  from handle_new_trajectory_short [OF wf_ramp10 a b c, of "\<lambda>trajectory buf. trajectory" id]
  obtain s' where
    run: "handle_new_trajectory (\<lambda>trajectory buf. trajectory) id 10 (map waypoint [0..<5]) ramp10
            = Done (map waypoint [0..<5], s')"
    and z: "\<forall>i<10. 5 \<le> i \<longrightarrow> (\<forall>r<4. \<forall>c<4. stage_weight s' i r c = 0)"
    and t: "\<forall>r<4. stage_weight s' 4 r r = weight_of (terminal (optimization_param ramp10)) r"
    and n: "\<forall>r<4. \<forall>c<4. terminal_weight s' r c = 0"
    by blast
  have "stage_weight s' 7 1 2 = 0" "stage_weight s' 9 3 3 = 0" using z by simp_all
  moreover have "stage_weight s' 4 0 0 = 20" "stage_weight s' 4 2 2 = 21"
    using t [rule_format, of 0] t [rule_format, of 2]
    by (simp_all add: weight_of_def ramp10_def buffer10_def)
  moreover have "terminal_weight s' 3 3 = 0" "terminal_weight s' 0 1 = 0" using n by simp_all
  ultimately show ?thesis using wf_ramp10 a b c run by blast
qed

text \<open>
  C6. Claim: with the reference headings \<open>-3\<close> and \<open>3\<close> in two consecutive stages and the
  measured heading near \<open>-3\<close>, after \<^verbatim>\<open>ensure_reference_consistency\<close> the two headings
  differ by at most 0.3, \<^verbatim>\<open>err\<close> stays below \<open>\<pi>\<close> and the function returns false. The
  function adds to \<^verbatim>\<open>err\<close> the amount by which it moves each reference, and it moves the
  second one by a full turn: on the buffer \<open>turning10\<close> it returns true.
\<close>

theorem ensure_reference_consistency_turn_counterexample:
  "stage_ref turning10 0 2 = - 3 \<and> stage_ref turning10 1 2 = 3 \<and> var_x0 turning10 ! 2 = - 3 \<and>
   map_option fst (returned (ensure_reference_consistency 10 10 turning10)) = Some True"
proof -
  have w: "wf 10 2 turning10" by (simp add: wf_def turning10_def buffer10_def)
  have h: "(2::Index) \<le> 10" by simp
  have a: "stage_ref turning10 0 2 = - 3" "stage_ref turning10 1 2 = 3"
    "var_x0 turning10 ! 2 = - 3"
    by (simp_all add: stage_ref_def turning10_def del: add_2_eq_Suc add_2_eq_Suc')
  then have n: "\<bar>var_x0 turning10 ! 2 + 3\<bar> < 1" by simp
  from heading_unwrap [OF w h h a(1,2) n]
  obtain err s' where r: "accumulated_err 10 10 turning10 = Done (err, s')"
    and e: "2 * pi \<le> err"
    by blast
  have "PI < err" using e pi_ge_3 by (simp add: PI_def)
  then have "ensure_reference_consistency 10 10 turning10 = Done (True, s')"
    by (simp add: ensure_reference_consistency_def r)
  then show ?thesis using a by simp
qed

text \<open>
  C6, amended. With the reference headings \<open>-3\<close> and \<open>3\<close> in the stages 0 and 1 and the
  measured heading within 1 rad of \<open>-3\<close>, \<^verbatim>\<open>ensure_reference_consistency\<close> over at least
  two stages leaves the headings \<open>-3\<close> and \<open>3 - 2\<pi>\<close>, which differ by at most 0.3; the
  accumulated \<^verbatim>\<open>err\<close> is at least \<open>2\<pi>\<close>, above the threshold 3.14159, and the function
  returns true.
\<close>

theorem ensure_reference_consistency_turn:
  fixes s :: "'h mpc"
  assumes "wf N NU s" "2 \<le> N" "2 \<le> horizon"
    and "stage_ref s 0 2 = - 3" "stage_ref s 1 2 = 3" "\<bar>var_x0 s ! 2 + 3\<bar> < 1"
  shows "\<exists>err s'. accumulated_err N horizon s = Done (err, s') \<and>
     ensure_reference_consistency N horizon s = Done (True, s') \<and>
     2 * pi \<le> err \<and> PI < err \<and>
     stage_ref s' 0 2 = - 3 \<and> stage_ref s' 1 2 = 3 - 2 * pi \<and>
     \<bar>stage_ref s' 1 2 - stage_ref s' 0 2\<bar> \<le> 0.3"
proof -
  from heading_unwrap [OF assms]
  obtain err s' where r: "accumulated_err N horizon s = Done (err, s')"
    and e: "2 * pi \<le> err"
    and a: "stage_ref s' 0 2 = - 3" "stage_ref s' 1 2 = 3 - 2 * pi"
    by blast
  have p: "PI < err" using e pi_ge_3 by (simp add: PI_def)
  then have "ensure_reference_consistency N horizon s = Done (True, s')"
    by (simp add: ensure_reference_consistency_def r)
  moreover have "\<bar>stage_ref s' 1 2 - stage_ref s' 0 2\<bar> \<le> 0.3"
    unfolding a using pi_ge_3 pi_le_315 by simp
  ultimately show ?thesis using r e p a by blast
qed

theorem ensure_reference_consistency_turn_witness:
  "wf 10 2 turning10 \<and> (2::Index) \<le> 10 \<and>
   stage_ref turning10 0 2 = - 3 \<and> stage_ref turning10 1 2 = 3 \<and>
   \<bar>var_x0 turning10 ! 2 + 3\<bar> < 1 \<and>
   (\<exists>err s'. ensure_reference_consistency 10 10 turning10 = Done (True, s') \<and>
      accumulated_err 10 10 turning10 = Done (err, s') \<and> 2 * pi \<le> err \<and>
      stage_ref s' 1 2 = 3 - 2 * pi)"
proof -
  have w: "wf 10 2 turning10" by (simp add: wf_def turning10_def buffer10_def)
  have h: "(2::Index) \<le> 10" by simp
  have a: "stage_ref turning10 0 2 = - 3" "stage_ref turning10 1 2 = 3"
    by (simp_all add: stage_ref_def turning10_def del: add_2_eq_Suc add_2_eq_Suc')
  have n: "\<bar>var_x0 turning10 ! 2 + 3\<bar> < 1" by (simp add: turning10_def)
  from ensure_reference_consistency_turn [OF w h h a n] w h a n show ?thesis by blast
qed

text \<open>
  C7. For every call with valid bounds (\<open>y_start + count \<le> N\<close> and
  \<open>traj_start + count \<le> |traj|\<close>), \<^verbatim>\<open>set_reference\<close> returns normally and for every
  \<open>i < count\<close> the stage \<open>y_start + i\<close> of the reference holds exactly the x, the y and the
  longitudinal velocity of the trajectory point \<open>traj_start + i\<close>, and as heading the
  angle conversion of that point's heading. With a conversion that is precision-preserving
  in the sense above, the stored heading of a point whose heading represents the angle \<open>\<theta>\<close>
  is within \<open>10\<^sup>-\<^sup>6\<close> rad of \<open>\<theta>\<close>.
\<close>

theorem set_reference_copy:
  assumes "wf N NU s" "unat y_start + unat count \<le> unat N"
    and "unat traj_start + unat count \<le> length traj" "length traj < 2 ^ 64"
    and "precision_preserving to_angle from_angle"
  shows "\<exists>s'. set_reference to_angle N traj y_start traj_start count s = Done s' \<and>
     (\<forall>i < unat count.
        stage_ref s' (unat y_start + i) 0 = pt_x (traj ! (unat traj_start + i)) \<and>
        stage_ref s' (unat y_start + i) 1 = pt_y (traj ! (unat traj_start + i)) \<and>
        stage_ref s' (unat y_start + i) 3 =
          longitudinal_velocity_mps (traj ! (unat traj_start + i)) \<and>
        stage_ref s' (unat y_start + i) 2 = to_angle (pt_heading (traj ! (unat traj_start + i))) \<and>
        (\<forall>\<theta>. - pi < \<theta> \<and> \<theta> \<le> pi \<and> pt_heading (traj ! (unat traj_start + i)) = from_angle \<theta>
           \<longrightarrow> \<bar>stage_ref s' (unat y_start + i) 2 - \<theta>\<bar> \<le> 1 / 10 ^ 6))"
proof -
  from set_reference_copies [OF assms(1-4), of to_angle]
  obtain s' where r: "set_reference to_angle N traj y_start traj_start count s = Done s'"
    and c: "\<forall>i < unat count. \<forall>d<4.
        stage_ref s' (unat y_start + i) d = ref_of to_angle (traj ! (unat traj_start + i)) d"
    by blast
  have "stage_ref s' (unat y_start + i) 0 = pt_x (traj ! (unat traj_start + i)) \<and>
        stage_ref s' (unat y_start + i) 1 = pt_y (traj ! (unat traj_start + i)) \<and>
        stage_ref s' (unat y_start + i) 3 =
          longitudinal_velocity_mps (traj ! (unat traj_start + i)) \<and>
        stage_ref s' (unat y_start + i) 2 = to_angle (pt_heading (traj ! (unat traj_start + i))) \<and>
        (\<forall>\<theta>. - pi < \<theta> \<and> \<theta> \<le> pi \<and> pt_heading (traj ! (unat traj_start + i)) = from_angle \<theta>
           \<longrightarrow> \<bar>stage_ref s' (unat y_start + i) 2 - \<theta>\<bar> \<le> 1 / 10 ^ 6)"
    if i: "i < unat count" for i
  proof -
    have f: "stage_ref s' (unat y_start + i) 0 = pt_x (traj ! (unat traj_start + i))"
      "stage_ref s' (unat y_start + i) 1 = pt_y (traj ! (unat traj_start + i))"
      "stage_ref s' (unat y_start + i) 3 = longitudinal_velocity_mps (traj ! (unat traj_start + i))"
      "stage_ref s' (unat y_start + i) 2 = to_angle (pt_heading (traj ! (unat traj_start + i)))"
      using c [rule_format, OF i, of 0] c [rule_format, OF i, of 1] c [rule_format, OF i, of 3]
        c [rule_format, OF i, of 2]
      by (simp_all add: ref_of_def)
    moreover have "\<bar>stage_ref s' (unat y_start + i) 2 - \<theta>\<bar> \<le> 1 / 10 ^ 6"
      if "- pi < \<theta> \<and> \<theta> \<le> pi \<and> pt_heading (traj ! (unat traj_start + i)) = from_angle \<theta>"
      for \<theta>
      using assms(5) that unfolding precision_preserving_def f(4) by auto
    ultimately show ?thesis by blast
  qed
  then show ?thesis using r by blast
qed

theorem set_reference_copy_witness:
  "wf 10 2 ramp10 \<and> unat (2::Index) + unat (4::Index) \<le> unat (10::Index) \<and>
   unat (3::Index) + unat (4::Index) \<le> length (map waypoint [0..<12]) \<and>
   length (map waypoint [0..<12]) < 2 ^ 64 \<and>
   precision_preserving (\<lambda>h. h) (\<lambda>\<theta>. \<theta>) \<and>
   (\<exists>s'. set_reference (\<lambda>h. h) 10 (map waypoint [0..<12]) 2 3 4 ramp10 = Done s' \<and>
      stage_ref s' 2 0 = 103 \<and> stage_ref s' 3 1 = 204 \<and> stage_ref s' 5 3 = 406 \<and>
      stage_ref s' 4 2 = 305)"
proof -
  have a: "unat (2::Index) + unat (4::Index) \<le> unat (10::Index)" by simp
  have b: "unat (3::Index) + unat (4::Index) \<le> length (map waypoint [0..<12])" by simp
  have c: "length (map waypoint [0..<12]) < 2 ^ 64" by simp
  have p: "precision_preserving (\<lambda>h::real. h) (\<lambda>\<theta>. \<theta>)"
    by (simp add: precision_preserving_def)
  from set_reference_copy [OF wf_ramp10 a b c p]
  obtain s' where
    r: "set_reference (\<lambda>h. h) 10 (map waypoint [0..<12]) 2 3 4 ramp10 = Done s'"
    and f: "\<forall>i < unat (4::Index).
        stage_ref s' (unat (2::Index) + i) 0 = pt_x (map waypoint [0..<12] ! (unat (3::Index) + i)) \<and>
        stage_ref s' (unat (2::Index) + i) 1 = pt_y (map waypoint [0..<12] ! (unat (3::Index) + i)) \<and>
        stage_ref s' (unat (2::Index) + i) 3 =
          longitudinal_velocity_mps (map waypoint [0..<12] ! (unat (3::Index) + i)) \<and>
        stage_ref s' (unat (2::Index) + i) 2 =
          pt_heading (map waypoint [0..<12] ! (unat (3::Index) + i))"
    by blast
  have "stage_ref s' 2 0 = 103" using f [rule_format, of 0] by (simp add: waypoint_def)
  moreover have "stage_ref s' 3 1 = 204" using f [rule_format, of 1] by (simp add: waypoint_def)
  moreover have "stage_ref s' 5 3 = 406" using f [rule_format, of 3] by (simp add: waypoint_def)
  moreover have "stage_ref s' 4 2 = 305" using f [rule_format, of 2] by (simp add: waypoint_def)
  ultimately show ?thesis using wf_ramp10 a b c p r by blast
qed

text \<open>
  C8. For every \<open>count < N\<close>, \<^verbatim>\<open>advance_problem(count)\<close> leaves the state of stage 0 as it
  was, and changes nothing but the state, reference and control arrays: the stage weights,
  the terminal weight, the terminal reference and every other field keep their values.
\<close>

theorem advance_problem_frame:
  assumes "wf N NU s" "count < N"
  shows "\<exists>s'. advance_problem N NU count s = Done s' \<and>
     (\<forall>j<4. state s' 0 j = state s 0 j) \<and>
     (\<forall>i r c. stage_weight s' i r c = stage_weight s i r c) \<and>
     (\<forall>r c. terminal_weight s' r c = terminal_weight s r c) \<and>
     (\<forall>j. terminal_ref s' j = terminal_ref s j) \<and>
     s'\<lparr>var_x := var_x s, var_y := var_y s, var_u := var_u s\<rparr> = s"
  using assms by (rule advance_problem_frame_aux)

theorem advance_problem_frame_witness:
  "wf 10 2 ramp10 \<and> (3::Index) < 10 \<and>
   (\<exists>s'. advance_problem 10 2 3 ramp10 = Done s' \<and>
      state s' 0 2 = 2 \<and> var_W s' = replicate 160 0 \<and> var_WN s' = replicate 16 0 \<and>
      var_yN s' = replicate 4 0)"
proof -
  have h: "(3::Index) < 10" by simp
  from advance_problem_frame [OF wf_ramp10 h]
  obtain s' where d: "advance_problem 10 2 3 ramp10 = Done s'"
    and a: "\<forall>j<4. state s' 0 j = state ramp10 0 j"
    and e: "s'\<lparr>var_x := var_x ramp10, var_y := var_y ramp10, var_u := var_u ramp10\<rparr> = ramp10"
    by blast
  have "state s' 0 2 = 2"
    using a [rule_format, of 2] by (simp add: state_def ramp10_def)
  moreover have "var_W s' = var_W ramp10" "var_WN s' = var_WN ramp10" "var_yN s' = var_yN ramp10"
    using arg_cong [OF e, of var_W] arg_cong [OF e, of var_WN] arg_cong [OF e, of var_yN]
    by simp_all
  then have "var_W s' = replicate 160 0" "var_WN s' = replicate 16 0" "var_yN s' = replicate 4 0"
    by (simp_all add: ramp10_def buffer10_def)
  ultimately show ?thesis using wf_ramp10 h d by blast
qed

text \<open>
  C9. If every off-diagonal entry of every stage weight and of the terminal weight is zero
  before a public operation, it is zero in the state the operation leaves, whether it
  returns or throws: \<^verbatim>\<open>apply_nominal_weights\<close>, \<^verbatim>\<open>zero_nominal_weights\<close>,
  \<^verbatim>\<open>set_terminal_weights\<close>, \<^verbatim>\<open>zero_terminal_weights\<close>, \<^verbatim>\<open>apply_terminal_weights\<close>,
  \<^verbatim>\<open>apply_weights\<close>, \<^verbatim>\<open>set_reference\<close>, \<^verbatim>\<open>set_terminal_reference\<close>,
  \<^verbatim>\<open>handle_new_trajectory\<close>, \<^verbatim>\<open>advance_problem\<close>, \<^verbatim>\<open>backfill_reference\<close> and
  \<^verbatim>\<open>ensure_reference_consistency\<close>, with any arguments.
\<close>

theorem off_diagonal_zero_preserved:
  assumes "off_diagonal_zero N s"
    and "state_after (perform sample to_angle N NU op s) = Some s'"
  shows "off_diagonal_zero N s'"
  using assms(1) perform_diagonal [rule_format, OF assms(2)] by (rule off_diagonal_zero_kept)

theorem off_diagonal_zero_preserved_witness:
  "off_diagonal_zero 10 buffer10 \<and>
   state_after (perform (\<lambda>trajectory buf. trajectory) id 10 2
      (Set_terminal_weights \<lparr>pose = 1, heading = 2, longitudinal_velocity = 3\<rparr>) buffer10)
     = Some (buffer10\<lparr>var_WN := (replicate 16 0)[0 := 1, 5 := 1, 10 := 2, 15 := 3]\<rparr>) \<and>
   off_diagonal_zero 10
     (buffer10\<lparr>var_WN := (replicate 16 0)[0 := 1, 5 := 1, 10 := 2, 15 := 3]\<rparr>)"
proof -
  note a = off_diagonal_zero_buffer10
  have "length (var_WN buffer10) = 16" by (simp add: buffer10_def)
  then have b: "state_after (perform (\<lambda>trajectory buf. trajectory) id 10 2
      (Set_terminal_weights \<lparr>pose = 1, heading = 2, longitudinal_velocity = 3\<rparr>) buffer10)
     = Some (buffer10\<lparr>var_WN := (replicate 16 0)[0 := 1, 5 := 1, 10 := 2, 15 := 3]\<rparr>)"
    by (simp add: set_terminal_weights_Done) (simp add: buffer10_def)
  from off_diagonal_zero_preserved [OF a b] a b show ?thesis by blast
qed

text \<open>
  C10. For every \<open>count < N\<close>, every stored trajectory (a vector, so of fewer than \<open>2^63\<close>
  points) and every temporal index, the calls inside \<^verbatim>\<open>backfill_reference(count)\<close> get
  arguments within bounds: \<open>ref_start + safe_count \<le> N\<close> and
  \<open>traj_start + safe_count \<le> |traj|\<close> for \<^verbatim>\<open>set_reference\<close>, \<open>N - remainder \<le> N\<close> for
  \<^verbatim>\<open>zero_nominal_weights\<close>, and when \<open>safe_count < count\<close> the remainder is at least 1 and
  \<^verbatim>\<open>apply_terminal_weights\<close> gets \<open>N - remainder - 1\<close>, an index below \<open>N\<close>. So none of them
  throws and the function returns normally.
\<close>

theorem backfill_reference_calls_in_bounds:
  fixes s :: "'h mpc"
  assumes "wf N NU s" "count < N" "length (reference_trajectory s) < 2 ^ 63"
  shows "(let ref_start = N - count;
              max_pts = size_of (reference_trajectory s);
              curr_idx = current_state_temporal_index s;
              traj_start = min (curr_idx + ref_start) max_pts;
              traj_end = min (traj_start + count) max_pts;
              safe_count = traj_end - traj_start;
              remainder = count - safe_count
          in unat ref_start + unat safe_count \<le> unat N \<and>
             unat traj_start + unat safe_count \<le> length (reference_trajectory s) \<and>
             N - remainder \<le> N \<and>
             (safe_count < count \<longrightarrow>
                1 \<le> unat remainder \<and>
                int (unat (N - (remainder + 1))) = int (unat N) - int (unat remainder) - 1 \<and>
                N - (remainder + 1) < N)) \<and>
         (\<exists>s'. backfill_reference to_angle N count s = Done s')"
  using assms by (rule backfill_reference_calls_aux)

theorem backfill_reference_calls_in_bounds_witness:
  "wf 10 2 (tracking10 5) \<and> (5::Index) < 10 \<and>
   length (reference_trajectory (tracking10 5)) < 2 ^ 63 \<and>
   (\<exists>s'. backfill_reference id 10 5 (tracking10 5) = Done s')"
proof -
  have h: "(5::Index) < 10" by simp
  have b: "length (reference_trajectory (tracking10 5)) < 2 ^ 63"
    by (simp add: tracking10_def)
  from backfill_reference_calls_in_bounds [OF wf_tracking10 h b, of id]
  have "\<exists>s'. backfill_reference id 10 5 (tracking10 5) = Done s'" by (rule conjunct2)
  then show ?thesis using wf_tracking10 h b by blast
qed

end
